theory Spec2Isabelle
  imports
    Main
    "HOL-Library.Multiset"
    "HOL-Library.Char_ord"
    "HOL-Library.List_Lexorder"
    "HOL-Library.Product_Lexorder"
begin

section \<open>The dashboard ingest pipeline (ingest.py) and the statistics query (gov\_data.py)\<close>

text \<open>
  The pipeline of \<^verbatim>\<open>ingest.py\<close> is fetch, extract, validate, transform (and
  heat\_transform), followed by the two charts. Each stage is embedded as a HOL function
  that returns either the Python exception that the stage raises (\<open>Inl\<close>) or its
  result (\<open>Inr\<close>). A Python \<^verbatim>\<open>str\<close> is a \<open>string\<close>, one \<open>char\<close> per code point
  (code points below 256); a cell that \<^verbatim>\<open>extract\<close> read from an element without
  text is \<^verbatim>\<open>None\<close>.
\<close>

subsection \<open>Exceptions and cells\<close>

text \<open>
  The exceptions that the program can end with. \<open>DateParserError\<close> stands for what
  \<^verbatim>\<open>dateutil.parser.parse\<close> raises: its \<^verbatim>\<open>ParserError\<close> (a \<^verbatim>\<open>ValueError\<close>) on
  a text that it cannot read as a date, or \<^verbatim>\<open>OverflowError\<close> on a date beyond the integers
  of the platform.
\<close>

datatype error =
    IndexError
  | TypeError
  | AttributeError
  | AssertionError
  | ValueError
  | DateParserError
  | RuntimeError
  | RequestException

type_synonym cell = "string option"

subsection \<open>String primitives of the language\<close>

text \<open>\<^verbatim>\<open>s.startswith(p)\<close>\<close>

fun startswith :: "string \<Rightarrow> string \<Rightarrow> bool" where
  "startswith s [] = True"
| "startswith [] (p # ps) = False"
| "startswith (c # cs) (p # ps) = (c = p \<and> startswith cs ps)"

text \<open>\<^verbatim>\<open>p in s\<close> for two strings: \<open>p\<close> occurs in \<open>s\<close> as a contiguous substring.\<close>

fun contains :: "string \<Rightarrow> string \<Rightarrow> bool" where
  "contains p [] = (p = [])"
| "contains p (c # cs) = (startswith (c # cs) p \<or> contains p cs)"

text \<open>\<^verbatim>\<open>s.endswith('*')\<close>\<close>

definition endswith_star :: "string \<Rightarrow> bool" where
  "endswith_star s = (s \<noteq> [] \<and> last s = CHR ''*'')"

subsection \<open>validate\<close>

text \<open>
  The expression \<^verbatim>\<open>cell_value[:-1] if cell_value.endswith('*') else cell_value\<close>
  on a string, and on a cell: on \<^verbatim>\<open>None\<close> the method call raises
  \<^verbatim>\<open>AttributeError\<close>.
\<close>

definition strip_star :: "string \<Rightarrow> string" where
  "strip_star s = (if endswith_star s then butlast s else s)"

definition strip_cell :: "cell \<Rightarrow> error + string" where
  "strip_cell c = (case c of None \<Rightarrow> Inl AttributeError | Some s \<Rightarrow> Inr (strip_star s))"

text \<open>The list comprehension over the cells of one row, left to right.\<close>

fun strip_row :: "cell list \<Rightarrow> error + string list" where
  "strip_row [] = Inr []"
| "strip_row (c # cs) =
     (case strip_cell c of
        Inl e \<Rightarrow> Inl e
      | Inr s \<Rightarrow> (case strip_row cs of Inl e \<Rightarrow> Inl e | Inr ss \<Rightarrow> Inr (s # ss)))"

text \<open>
  \<^verbatim>\<open>label in row[i]\<close>: \<^verbatim>\<open>row[i]\<close> raises \<^verbatim>\<open>IndexError\<close> past the end of the
  row, and \<^verbatim>\<open>in\<close> raises \<^verbatim>\<open>TypeError\<close> on \<^verbatim>\<open>None\<close>.
\<close>

definition cell_contains :: "string \<Rightarrow> cell list \<Rightarrow> nat \<Rightarrow> error + bool" where
  "cell_contains label row i =
     (if length row \<le> i then Inl IndexError
      else case row ! i of None \<Rightarrow> Inl TypeError | Some s \<Rightarrow> Inr (contains label s))"

text \<open>
  The body of the loop of \<^verbatim>\<open>validate\<close> for one row: \<open>Inr None\<close> is
  \<^verbatim>\<open>continue\<close> (the row is dropped), \<open>Inr (Some r)\<close> is the row appended to
  \<^verbatim>\<open>validated\<close>.
\<close>

definition validate_row :: "cell list \<Rightarrow> error + string list option" where
  "validate_row row =
     (case cell_contains ''Day'' row 0 of
        Inl e \<Rightarrow> Inl e
      | Inr True \<Rightarrow>
          (case cell_contains ''New staff'' row 1 of
             Inl e \<Rightarrow> Inl e
           | Inr False \<Rightarrow> Inl AssertionError
           | Inr True \<Rightarrow>
               (case cell_contains ''New student'' row 2 of
                  Inl e \<Rightarrow> Inl e
                | Inr False \<Rightarrow> Inl AssertionError
                | Inr True \<Rightarrow> Inr None))
      | Inr False \<Rightarrow>
          (case strip_row row of Inl e \<Rightarrow> Inl e | Inr r \<Rightarrow> Inr (Some r)))"

text \<open>
  The loop over the table with its accumulator \<^verbatim>\<open>validated\<close>; the first exception
  ends the run.
\<close>

fun validate_loop :: "string list list \<Rightarrow> cell list list \<Rightarrow> error + string list list" where
  "validate_loop validated [] = Inr validated"
| "validate_loop validated (row # table) =
     (case validate_row row of
        Inl e \<Rightarrow> Inl e
      | Inr None \<Rightarrow> validate_loop validated table
      | Inr (Some r) \<Rightarrow> validate_loop (validated @ [r]) table)"

definition validate :: "cell list list \<Rightarrow> error + string list list" where
  "validate table = validate_loop [] table"

text \<open>
  The two descriptions of a header row that the properties of \<^verbatim>\<open>validate\<close> are
  stated with: a row that the loop treats as a header (its first cell contains
  \<^verbatim>\<open>Day\<close>), and a header row that carries the two expected labels.
\<close>

fun is_header :: "cell list \<Rightarrow> bool" where
  "is_header (Some c0 # rest) = contains ''Day'' c0"
| "is_header row = False"

fun labelled_header :: "cell list \<Rightarrow> bool" where
  "labelled_header (Some c0 # Some c1 # Some c2 # rest) =
     (contains ''Day'' c0 \<and> contains ''New staff'' c1 \<and> contains ''New student'' c2)"
| "labelled_header row = False"

subsection \<open>Decimal text\<close>

definition digit_char :: "nat \<Rightarrow> char" where
  "digit_char n = char_of (48 + n)"

text \<open>The decimal digits of a natural number, most significant first.\<close>

fun dec :: "nat \<Rightarrow> string" where
  "dec n = (if n < 10 then [digit_char n] else dec (n div 10) @ [digit_char (n mod 10)])"

declare dec.simps [simp del]

text \<open>\<^verbatim>\<open>str(i)\<close> for an \<^verbatim>\<open>int\<close>.\<close>

definition str_int :: "int \<Rightarrow> string" where
  "str_int i = (if i < 0 then CHR ''-'' # dec (nat (- i)) else dec (nat i))"

text \<open>\<^verbatim>\<open>"%0kd" % n\<close> for a non-negative \<open>n\<close>: padded with zeros to at least \<open>k\<close> characters.\<close>

definition zero_pad :: "nat \<Rightarrow> nat \<Rightarrow> string" where
  "zero_pad k n = replicate (k - length (dec n)) (CHR ''0'') @ dec n"

definition isdigit :: "char \<Rightarrow> bool" where
  "isdigit c = (CHR ''0'' \<le> c \<and> c \<le> CHR ''9'')"

definition digit_val :: "char \<Rightarrow> nat" where
  "digit_val c = of_char c - 48"

text \<open>The value of a run of decimal digits, read left to right.\<close>

definition digits_val :: "string \<Rightarrow> nat" where
  "digits_val s = foldl (\<lambda>a c. 10 * a + digit_val c) 0 s"

subsection \<open>The built-in int() on a string\<close>

text \<open>
  \<^verbatim>\<open>int(x)\<close> for a \<^verbatim>\<open>str\<close>, in base 10, as the language defines it: white space
  around the number is skipped, one sign may precede the digits, and single underscores may
  separate digits. Everything else raises \<^verbatim>\<open>ValueError\<close>, here \<open>None\<close>.

  The white space that int() skips is not that of \<^verbatim>\<open>str.isspace\<close>: of the code points
  below 128 it is tab, line feed, vertical tab, form feed, carriage return and space (the
  separators 28 to 31 are not skipped), and above them the next-line and no-break space
  characters, 133 and 160.

  Interpreters released after this program was written also refuse a text of more than
  \<^verbatim>\<open>sys.get_int_max_str_digits()\<close> digits, 4300 unless it is set otherwise and never
  less than 640 when it is on. That limit is left out of \<open>py_int\<close>, which therefore is int()
  on every interpreter for texts of at most 640 characters, and for all texts where no limit
  applies.
\<close>

definition int_space :: "char \<Rightarrow> bool" where
  "int_space c = (of_char c \<in> {9, 10, 11, 12, 13, 32, 133, 160 :: nat})"

definition strip_space :: "string \<Rightarrow> string" where
  "strip_space s = rev (dropWhile int_space (rev (dropWhile int_space s)))"

text \<open>Digits with single underscores between them; the value ignores the underscores.\<close>

fun digit_groups :: "string \<Rightarrow> bool" where
  "digit_groups [] = False"
| "digit_groups [c] = isdigit c"
| "digit_groups (c # u # cs) =
     (isdigit c \<and> (if u = CHR ''_'' then digit_groups cs else digit_groups (u # cs)))"

definition unsigned_int :: "string \<Rightarrow> int option" where
  "unsigned_int s =
     (if digit_groups s then Some (int (digits_val (filter isdigit s))) else None)"

definition py_int :: "string \<Rightarrow> int option" where
  "py_int x =
     (case strip_space x of
        [] \<Rightarrow> None
      | c # cs \<Rightarrow>
          if c = CHR ''-'' then map_option uminus (unsigned_int cs)
          else if c = CHR ''+'' then unsigned_int cs
          else unsigned_int (c # cs))"

subsection \<open>Calendar dates (datetime.date)\<close>

record date =
  year :: nat
  month :: nat
  day :: nat

definition is_leap :: "nat \<Rightarrow> bool" where
  "is_leap y = (y mod 4 = 0 \<and> (y mod 100 \<noteq> 0 \<or> y mod 400 = 0))"

definition days_in_month :: "nat \<Rightarrow> nat \<Rightarrow> nat" where
  "days_in_month y m =
     (if m = 2 \<and> is_leap y then 29
      else [31, 28, 31, 30, 31, 30, 31, 31, 30, 31, 30, 31] ! (m - 1))"

text \<open>The dates that a \<^verbatim>\<open>date\<close> object can hold: years 1 to 9999 of the Gregorian calendar.\<close>

definition valid_date :: "date \<Rightarrow> bool" where
  "valid_date d =
     (1 \<le> year d \<and> year d \<le> 9999 \<and> 1 \<le> month d \<and> month d \<le> 12 \<and>
      1 \<le> day d \<and> day d \<le> days_in_month (year d) (month d))"

definition days_before_year :: "nat \<Rightarrow> int" where
  "days_before_year y =
     (let y1 = int y - 1 in y1 * 365 + y1 div 4 - y1 div 100 + y1 div 400)"

definition days_before_month :: "nat \<Rightarrow> nat \<Rightarrow> int" where
  "days_before_month y m =
     [0, 31, 59, 90, 120, 151, 181, 212, 243, 273, 304, 334] ! (m - 1) +
     (if m > 2 \<and> is_leap y then 1 else 0)"

definition toordinal :: "date \<Rightarrow> int" where
  "toordinal d = days_before_year (year d) + days_before_month (year d) (month d) + int (day d)"

text \<open>\<^verbatim>\<open>d.weekday()\<close>: Monday is 0, Sunday is 6.\<close>

definition weekday :: "date \<Rightarrow> int" where
  "weekday d = (toordinal d + 6) mod 7"

text \<open>\<^verbatim>\<open>str(d)\<close>, that is \<^verbatim>\<open>d.isoformat()\<close>: \<^verbatim>\<open>"%04d-%02d-%02d"\<close>.\<close>

definition isoformat :: "date \<Rightarrow> string" where
  "isoformat d =
     zero_pad 4 (year d) @ ''-'' @ zero_pad 2 (month d) @ ''-'' @ zero_pad 2 (day d)"

text \<open>Calendar order of two dates.\<close>

definition date_key :: "date \<Rightarrow> nat \<times> nat \<times> nat" where
  "date_key d = (year d, month d, day d)"

subsection \<open>Values of output rows, and sorted()\<close>

datatype pyval = PStr string | PInt int

fun is_int :: "pyval \<Rightarrow> bool" where
  "is_int (PInt i) = True"
| "is_int (PStr s) = False"

text \<open>
  \<^verbatim>\<open>a < b\<close> on two values: strings compare by code point, integers by value, and a
  string against an integer raises \<^verbatim>\<open>TypeError\<close>.
\<close>

fun val_lt :: "pyval \<Rightarrow> pyval \<Rightarrow> error + bool" where
  "val_lt (PStr a) (PStr b) = Inr (a < b)"
| "val_lt (PInt a) (PInt b) = Inr (a < b)"
| "val_lt (PStr a) (PInt b) = Inl TypeError"
| "val_lt (PInt a) (PStr b) = Inl TypeError"

text \<open>
  \<^verbatim>\<open>xs < ys\<close> on two lists: the first position where the lists differ decides; when
  one list is a prefix of the other the shorter one is smaller.
\<close>

fun list_lt :: "pyval list \<Rightarrow> pyval list \<Rightarrow> error + bool" where
  "list_lt [] [] = Inr False"
| "list_lt [] (y # ys) = Inr True"
| "list_lt (x # xs) [] = Inr False"
| "list_lt (x # xs) (y # ys) = (if x = y then list_lt xs ys else val_lt x y)"

text \<open>
  \<^verbatim>\<open>sorted(result)\<close> is a stable sort that only uses \<^verbatim>\<open><\<close>. It is modelled as
  the stable insertion sort: each row, in input order, goes in front of the first row of the
  sorted prefix that it is smaller than. A comparison that raises ends the sort.
\<close>

fun insert_row :: "pyval list \<Rightarrow> pyval list list \<Rightarrow> error + pyval list list" where
  "insert_row x [] = Inr [x]"
| "insert_row x (p # ps) =
     (case list_lt x p of
        Inl e \<Rightarrow> Inl e
      | Inr True \<Rightarrow> Inr (x # p # ps)
      | Inr False \<Rightarrow> (case insert_row x ps of Inl e \<Rightarrow> Inl e | Inr r \<Rightarrow> Inr (p # r)))"

fun sorted_loop :: "pyval list list \<Rightarrow> pyval list list \<Rightarrow> error + pyval list list" where
  "sorted_loop placed [] = Inr placed"
| "sorted_loop placed (x # xs) =
     (case insert_row x placed of Inl e \<Rightarrow> Inl e | Inr placed' \<Rightarrow> sorted_loop placed' xs)"

definition py_sorted :: "pyval list list \<Rightarrow> error + pyval list list" where
  "py_sorted rows = sorted_loop [] rows"

subsection \<open>transform and heat\_transform\<close>

text \<open>
  Both functions take the date parser as a parameter: \<open>parse s\<close> stands for
  \<^verbatim>\<open>dateutil.parser.parse(s)\<close> reduced to its calendar date, and is \<open>None\<close> when
  the library raises (\<^verbatim>\<open>ParserError\<close> or \<^verbatim>\<open>OverflowError\<close>); the exception then
  ends the function, as \<open>DateParserError\<close>.
\<close>

type_synonym date_parser = "string \<Rightarrow> date option"

text \<open>\<^verbatim>\<open>int(x) for x in cells\<close>, consumed left to right by \<^verbatim>\<open>out.extend\<close>.\<close>

fun int_cells :: "string list \<Rightarrow> error + pyval list" where
  "int_cells [] = Inr []"
| "int_cells (x # xs) =
     (case py_int x of
        None \<Rightarrow> Inl ValueError
      | Some v \<Rightarrow> (case int_cells xs of Inl e \<Rightarrow> Inl e | Inr vs \<Rightarrow> Inr (PInt v # vs)))"

text \<open>The body of the loop of \<^verbatim>\<open>transform\<close>: \<^verbatim>\<open>row[0]\<close>, then \<^verbatim>\<open>row[1:]\<close>.\<close>

definition transform_row :: "date_parser \<Rightarrow> string list \<Rightarrow> error + pyval list" where
  "transform_row parse row =
     (case row of
        [] \<Rightarrow> Inl IndexError
      | c0 # rest \<Rightarrow>
          (case parse c0 of
             None \<Rightarrow> Inl DateParserError
           | Some d \<Rightarrow>
               (case int_cells rest of
                  Inl e \<Rightarrow> Inl e
                | Inr vs \<Rightarrow> Inr (PStr (isoformat d) # vs))))"

text \<open>
  The body of the loop of \<^verbatim>\<open>heat_transform\<close>. It parses \<^verbatim>\<open>row[0]\<close> twice, once
  for the weekday and once for the date; the parser gives the same date both times. The
  weekday is wrapped in \<^verbatim>\<open>str(...)\<close> before it goes into the row.
\<close>

definition heat_transform_row :: "date_parser \<Rightarrow> string list \<Rightarrow> error + pyval list" where
  "heat_transform_row parse row =
     (case row of
        [] \<Rightarrow> Inl IndexError
      | c0 # rest \<Rightarrow>
          (case parse c0 of
             None \<Rightarrow> Inl DateParserError
           | Some d \<Rightarrow>
               (case int_cells rest of
                  Inl e \<Rightarrow> Inl e
                | Inr vs \<Rightarrow> Inr (PStr (str_int (weekday d)) # PStr (isoformat d) # vs))))"

text \<open>
  \<^verbatim>\<open>result = []\<close>, then for each row \<^verbatim>\<open>result.append(out)\<close>; the first exception
  ends the loop.
\<close>

fun append_loop ::
  "('a \<Rightarrow> error + 'b) \<Rightarrow> 'b list \<Rightarrow> 'a list \<Rightarrow> error + 'b list" where
  "append_loop body result [] = Inr result"
| "append_loop body result (row # rows) =
     (case body row of
        Inl e \<Rightarrow> Inl e
      | Inr out \<Rightarrow> append_loop body (result @ [out]) rows)"

definition transform :: "date_parser \<Rightarrow> string list list \<Rightarrow> error + pyval list list" where
  "transform parse rows =
     (case append_loop (transform_row parse) [] rows of
        Inl e \<Rightarrow> Inl e
      | Inr result \<Rightarrow> py_sorted result)"

definition heat_transform :: "date_parser \<Rightarrow> string list list \<Rightarrow> error + pyval list list" where
  "heat_transform parse rows =
     (case append_loop (heat_transform_row parse) [] rows of
        Inl e \<Rightarrow> Inl e
      | Inr result \<Rightarrow> py_sorted result)"

subsection \<open>The weekday sums of create\_heatmap\<close>

text \<open>
  One element of \<^verbatim>\<open>np.array(heatdata)\<close> read back through \<^verbatim>\<open>astype(int)\<close>:
  the array holds every value as text, and the conversion reads the text as int() does.
\<close>

definition np_int :: "pyval \<Rightarrow> error + int" where
  "np_int v =
     (case v of
        PInt i \<Rightarrow> Inr i
      | PStr s \<Rightarrow> (case py_int s of None \<Rightarrow> Inl ValueError | Some i \<Rightarrow> Inr i))"

fun np_ints :: "pyval list \<Rightarrow> error + int list" where
  "np_ints [] = Inr []"
| "np_ints (v # vs) =
     (case np_int v of
        Inl e \<Rightarrow> Inl e
      | Inr i \<Rightarrow> (case np_ints vs of Inl e \<Rightarrow> Inl e | Inr is \<Rightarrow> Inr (i # is)))"

text \<open>
  \<^verbatim>\<open>heatarray[:,k].astype(int)\<close>. The array has two axes only when the rows are
  there and have one length; otherwise, and when \<open>k\<close> is not a column, the index raises
  \<^verbatim>\<open>IndexError\<close>.
\<close>

definition column :: "nat \<Rightarrow> pyval list list \<Rightarrow> error + int list" where
  "column k heatdata =
     (if heatdata = [] \<or> (\<exists>r \<in> set heatdata. length r \<noteq> length (hd heatdata)) then Inl IndexError
      else if length (hd heatdata) \<le> k then Inl IndexError
      else np_ints (map (\<lambda>r. r ! k) heatdata))"

text \<open>
  \<^verbatim>\<open>np.bincount(x, weights=w)\<close> without \<^verbatim>\<open>minlength\<close>: one bin for each of
  \<open>0, ..., max x\<close>, holding the sum of the weights of the entries equal to the bin's
  index. A negative entry raises \<^verbatim>\<open>ValueError\<close>. (The sums are floating-point numbers
  in the program; they are the integers below as long as they are exactly representable.)
\<close>

definition bincount :: "int list \<Rightarrow> int list \<Rightarrow> error + int list" where
  "bincount x w =
     (if \<exists>d \<in> set x. d < 0 then Inl ValueError
      else if x = [] then Inr []
      else Inr (map (\<lambda>k. sum_list (map snd (filter (\<lambda>p. fst p = int k) (zip x w))))
                  [0 ..< Suc (nat (fold max x 0))]))"

text \<open>
  \<^verbatim>\<open>plotarray\<close>: row 0 the student sums (column 3 of the heat rows), row 1 the staff
  sums (column 2), one column per bin.
\<close>

definition heat_sums :: "pyval list list \<Rightarrow> error + int list list" where
  "heat_sums heatdata =
     (case column 0 heatdata of
        Inl e \<Rightarrow> Inl e
      | Inr days \<Rightarrow>
     (case column 3 heatdata of
        Inl e \<Rightarrow> Inl e
      | Inr studentvals \<Rightarrow>
     (case column 2 heatdata of
        Inl e \<Rightarrow> Inl e
      | Inr staffvals \<Rightarrow>
     (case bincount days studentvals of
        Inl e \<Rightarrow> Inl e
      | Inr studentsums \<Rightarrow>
     (case bincount days staffvals of
        Inl e \<Rightarrow> Inl e
      | Inr staffsums \<Rightarrow> Inr [studentsums, staffsums])))))"

text \<open>
  \<^verbatim>\<open>create_heatmap\<close> up to the picture it saves: after the sums, the annotation loop
  reads \<^verbatim>\<open>plotarray[i, j]\<close> for the two rows and the seven day names, which raises
  \<^verbatim>\<open>IndexError\<close> when the array has fewer than seven columns. The result is the grid
  that is drawn.
\<close>

definition create_heatmap :: "pyval list list \<Rightarrow> error + int list list" where
  "create_heatmap heatdata =
     (case heat_sums heatdata of
        Inl e \<Rightarrow> Inl e
      | Inr plotarray \<Rightarrow>
          if \<exists>r \<in> set plotarray. length r < 7 then Inl IndexError else Inr plotarray)"

subsection \<open>fetch, and the request of gov\_data.py\<close>

text \<open>
  What \<^verbatim>\<open>requests.get\<close> comes back with: it raises when the request cannot
  complete, and otherwise returns a response with a status code and a body, whatever
  the status is.
\<close>

datatype http_outcome = NoResponse | Response nat string

text \<open>
  \<^verbatim>\<open>fetch\<close> of ingest.py; \<open>html5lib_parse\<close> stands for the lenient HTML parser,
  which accepts every text.
\<close>

definition fetch :: "(string \<Rightarrow> 'dom) \<Rightarrow> http_outcome \<Rightarrow> error + 'dom" where
  "fetch html5lib_parse outcome =
     (case outcome of
        NoResponse \<Rightarrow> Inl RequestException
      | Response status_code text \<Rightarrow> Inr (html5lib_parse text))"

text \<open>The request at module level of gov\_data.py, up to the body it goes on to decode.\<close>

definition gov_data_request :: "http_outcome \<Rightarrow> error + string" where
  "gov_data_request outcome =
     (case outcome of
        NoResponse \<Rightarrow> Inl RequestException
      | Response status_code text \<Rightarrow>
          if status_code \<ge> 400 then Inl RuntimeError else Inr text)"

subsection \<open>Dates written as day, month name, year\<close>

text \<open>
  The dashboard writes its dates as \<^verbatim>\<open>11 October 2020\<close>. \<open>parse_dmy\<close> is the date
  parser on texts of exactly that shape: a day of one or two digits, one of the twelve month
  names below written in full with a capital, and a year of four digits of which the first is
  not 0, separated by single spaces. On these the library reads day, month and year in this
  order, takes the year as written, and raises when the month does not have the day. On any
  other text \<open>parse_dmy\<close> is \<open>None\<close> too, and that says nothing about the library, which
  reads many more shapes (other spellings of the months, other orders, and years below 100,
  which it moves to the current century). It is used for concrete runs on texts of its shape
  only.
\<close>

fun split_on :: "char \<Rightarrow> string \<Rightarrow> string list" where
  "split_on sep [] = [[]]"
| "split_on sep (c # cs) =
     (if c = sep then [] # split_on sep cs
      else (case split_on sep cs of [] \<Rightarrow> [[c]] | w # ws \<Rightarrow> (c # w) # ws))"

definition month_names :: "(string \<times> nat) list" where
  "month_names =
     [(''January'', 1), (''February'', 2), (''March'', 3), (''April'', 4),
      (''May'', 5), (''June'', 6), (''July'', 7), (''August'', 8),
      (''September'', 9), (''October'', 10), (''November'', 11), (''December'', 12)]"

definition parse_dmy :: date_parser where
  "parse_dmy s =
     (case split_on (CHR '' '') s of
        [dd, mm, yyyy] \<Rightarrow>
          (case map_of month_names mm of
             None \<Rightarrow> None
           | Some m \<Rightarrow>
               if dd \<noteq> [] \<and> length dd \<le> 2 \<and> list_all isdigit dd \<and>
                  length yyyy = 4 \<and> list_all isdigit yyyy \<and> hd yyyy \<noteq> CHR ''0''
               then (let d = \<lparr>year = digits_val yyyy, month = m, day = digits_val dd\<rparr>
                     in if valid_date d then Some d else None)
               else None)
      | _ \<Rightarrow> None)"

subsection \<open>Reading output rows\<close>

text \<open>
  The text and the number that a value holds, and the two views of an output row that its
  order is stated with: a row of \<^verbatim>\<open>transform\<close> is a date text followed by numbers, a
  row of \<^verbatim>\<open>heat_transform\<close> a weekday text, a date text and numbers. Tuples compare
  component by component from the left, texts and number lists position by position.
\<close>

fun str_of :: "pyval \<Rightarrow> string" where
  "str_of (PStr s) = s"
| "str_of (PInt i) = []"

fun int_of :: "pyval \<Rightarrow> int" where
  "int_of (PInt i) = i"
| "int_of (PStr s) = 0"

definition row_key :: "pyval list \<Rightarrow> string \<times> int list" where
  "row_key r = (str_of (hd r), map int_of (tl r))"

definition heat_key :: "pyval list \<Rightarrow> string \<times> string \<times> int list" where
  "heat_key r = (str_of (r ! 0), str_of (r ! 1), map int_of (drop 2 r))"

text \<open>The row that \<^verbatim>\<open>transform\<close> builds from an input row whose cells are all accepted.\<close>

definition record_of :: "date_parser \<Rightarrow> string list \<Rightarrow> pyval list" where
  "record_of parse row =
     PStr (isoformat (the (parse (hd row)))) # map (\<lambda>x. PInt (the (py_int x))) (tl row)"

definition heat_record_of :: "date_parser \<Rightarrow> string list \<Rightarrow> pyval list" where
  "heat_record_of parse row =
     PStr (str_int (weekday (the (parse (hd row))))) # record_of parse row"

text \<open>The input rows that neither \<^verbatim>\<open>row[0]\<close>, the date parser nor int() raises on.\<close>

definition accepted :: "date_parser \<Rightarrow> string list \<Rightarrow> bool" where
  "accepted parse row =
     (row \<noteq> [] \<and> parse (hd row) \<noteq> None \<and> list_all (\<lambda>x. py_int x \<noteq> None) (tl row))"

section \<open>Properties of validate\<close>

subsection \<open>The string tests say what they should\<close>

lemma startswith_iff: "startswith s p \<longleftrightarrow> (\<exists>b. s = p @ b)"
  by (induction s p rule: startswith.induct) auto

lemma contains_iff: "contains p s \<longleftrightarrow> (\<exists>a b. s = a @ p @ b)"
proof (induction s)
  case Nil
  then show ?case by auto
next
  case (Cons c cs)
  show ?case
  proof
    assume "contains p (c # cs)"
    then consider "startswith (c # cs) p" | "contains p cs" by auto
    then show "\<exists>a b. c # cs = a @ p @ b"
    proof cases
      case 1
      then obtain b where "c # cs = p @ b" by (auto simp: startswith_iff)
      then have "c # cs = [] @ p @ b" by simp
      then show ?thesis by blast
    next
      case 2
      then obtain a b where "cs = a @ p @ b" using Cons.IH by auto
      then have "c # cs = (c # a) @ p @ b" by simp
      then show ?thesis by blast
    qed
  next
    assume "\<exists>a b. c # cs = a @ p @ b"
    then obtain a b where ab: "c # cs = a @ p @ b" by auto
    show "contains p (c # cs)"
    proof (cases a)
      case Nil
      then have "startswith (c # cs) p" using ab by (auto simp: startswith_iff)
      then show ?thesis by simp
    next
      case (Cons x a')
      then have "cs = a' @ p @ b" using ab by simp
      then have "contains p cs" using Cons.IH by blast
      then show ?thesis by simp
    qed
  qed
qed

subsection \<open>Rows and the loop\<close>

lemma strip_star_snoc: "strip_star (t @ ''*'') = t"
  by (simp add: strip_star_def endswith_star_def)

lemma strip_star_other: "(\<forall>t. s \<noteq> t @ ''*'') \<Longrightarrow> strip_star s = s"
proof -
  assume h: "\<forall>t. s \<noteq> t @ ''*''"
  have "\<not> endswith_star s"
  proof
    assume "endswith_star s"
    then have "s = butlast s @ ''*''"
      by (metis append_butlast_last_id endswith_star_def)
    then show False using h by blast
  qed
  then show ?thesis by (simp add: strip_star_def)
qed

lemma strip_row_eq:
  "strip_row row =
     (if None \<in> set row then Inl AttributeError else Inr (map (strip_star \<circ> the) row))"
  by (induction row) (auto simp: strip_cell_def split: option.splits)

lemma validate_loop_acc:
  "validate_loop acc table =
     (case validate_loop [] table of Inl e \<Rightarrow> Inl e | Inr r \<Rightarrow> Inr (acc @ r))"
proof (induction table arbitrary: acc)
  case Nil
  then show ?case by simp
next
  case (Cons row table)
  show ?case
  proof (cases "validate_row row")
    case (Inl e)
    then show ?thesis by simp
  next
    case (Inr keep)
    show ?thesis
    proof (cases keep)
      case None
      then show ?thesis using Inr Cons.IH [of acc] by simp
    next
      case (Some r)
      then show ?thesis
        using Inr Cons.IH [of "acc @ [r]"] Cons.IH [of "[r]"]
        by (simp split: sum.splits)
    qed
  qed
qed

lemma validate_Nil: "validate [] = Inr []"
  by (simp add: validate_def)

lemma validate_Cons:
  "validate (row # table) =
     (case validate_row row of
        Inl e \<Rightarrow> Inl e
      | Inr None \<Rightarrow> validate table
      | Inr (Some r) \<Rightarrow> (case validate table of Inl e \<Rightarrow> Inl e | Inr rs \<Rightarrow> Inr (r # rs)))"
  unfolding validate_def
  by (simp add: validate_loop_acc [of "[_]"] split: sum.splits option.splits)

lemma validate_append:
  "validate (pre @ post) =
     (case validate pre of
        Inl e \<Rightarrow> Inl e
      | Inr v \<Rightarrow> (case validate post of Inl e \<Rightarrow> Inl e | Inr w \<Rightarrow> Inr (v @ w)))"
  by (induction pre) (auto simp: validate_Nil validate_Cons split: sum.splits option.splits)


lemma validate_row_Nil: "validate_row [] = Inl IndexError"
  by (simp add: validate_row_def cell_contains_def)

lemma validate_row_None: "validate_row (None # cs) = Inl TypeError"
  by (simp add: validate_row_def cell_contains_def)

lemma validate_row_Some:
  "validate_row (Some c0 # cs) =
     (if contains ''Day'' c0 then
        (case cs of
           [] \<Rightarrow> Inl IndexError
         | None # _ \<Rightarrow> Inl TypeError
         | Some c1 # cs' \<Rightarrow>
             if \<not> contains ''New staff'' c1 then Inl AssertionError
             else (case cs' of
                     [] \<Rightarrow> Inl IndexError
                   | None # _ \<Rightarrow> Inl TypeError
                   | Some c2 # _ \<Rightarrow>
                       if contains ''New student'' c2 then Inr None else Inl AssertionError))
      else if None \<in> set cs then Inl AttributeError
      else Inr (Some (map (strip_star \<circ> the) (Some c0 # cs))))"
  by (simp add: validate_row_def cell_contains_def strip_row_eq
      split: list.splits option.splits)

lemma validate_row_Cons:
  "validate_row (c # cs) =
     (case c of None \<Rightarrow> Inl TypeError | Some c0 \<Rightarrow> validate_row (Some c0 # cs))"
  by (cases c) (simp_all add: validate_row_None)

lemma validate_row_drop: "validate_row row = Inr None \<longleftrightarrow> labelled_header row"
proof (induction row rule: labelled_header.induct)
  fix c0 c1 c2 :: string and rest :: "cell list"
  show "validate_row (Some c0 # Some c1 # Some c2 # rest) = Inr None \<longleftrightarrow>
        labelled_header (Some c0 # Some c1 # Some c2 # rest)"
    by (simp add: validate_row_Some)
next
  show "validate_row [] = Inr None \<longleftrightarrow> labelled_header []"
    by (simp add: validate_row_Nil)
next
  fix cs :: "cell list"
  show "validate_row (None # cs) = Inr None \<longleftrightarrow> labelled_header (None # cs)"
    by (simp add: validate_row_None)
next
  fix v :: cell
  show "validate_row [v] = Inr None \<longleftrightarrow> labelled_header [v]"
    by (cases v) (simp_all add: validate_row_None validate_row_Some)
next
  fix v :: cell and cs :: "cell list"
  show "validate_row (v # None # cs) = Inr None \<longleftrightarrow> labelled_header (v # None # cs)"
    by (cases v) (simp_all add: validate_row_None validate_row_Some)
next
  fix v c1 :: cell
  show "validate_row [v, c1] = Inr None \<longleftrightarrow> labelled_header [v, c1]"
    by (cases v; cases c1) (simp_all add: validate_row_None validate_row_Some)
next
  fix v c1 :: cell and cs :: "cell list"
  show "validate_row (v # c1 # None # cs) = Inr None \<longleftrightarrow> labelled_header (v # c1 # None # cs)"
    by (cases v; cases c1) (simp_all add: validate_row_None validate_row_Some)
qed

lemma is_header_Cons: "is_header (c # cs) = (case c of None \<Rightarrow> False | Some c0 \<Rightarrow> contains ''Day'' c0)"
  by (cases c) simp_all

lemma validate_row_keep:
  "validate_row row = Inr (Some r) \<longleftrightarrow>
     row \<noteq> [] \<and> None \<notin> set row \<and> \<not> is_header row \<and> r = map (strip_star \<circ> the) row"
proof (cases row)
  case Nil
  then show ?thesis by (simp add: validate_row_Nil)
next
  case (Cons c cs)
  show ?thesis
  proof (cases c)
    case None
    then show ?thesis using Cons by (simp add: validate_row_None)
  next
    case (Some c0)
    show ?thesis
    proof (cases "contains ''Day'' c0")
      case True
      have "validate_row (Some c0 # cs) \<noteq> Inr (Some r)"
        using True by (simp add: validate_row_Some split: list.splits option.splits)
      then show ?thesis using Cons Some True by simp
    next
      case False
      then show ?thesis using Cons Some by (auto simp: validate_row_Some)
    qed
  qed
qed

lemma labelled_header_is_header: "labelled_header row \<Longrightarrow> is_header row"
  by (induction row rule: labelled_header.induct) simp_all

lemma validate_Inr:
  "validate table = Inr out \<Longrightarrow>
     out = map (map (strip_star \<circ> the)) (filter (\<lambda>row. \<not> is_header row) table) \<and>
     (\<forall>row \<in> set table. if is_header row then labelled_header row else row \<noteq> [] \<and> None \<notin> set row)"
proof (induction table arbitrary: out)
  case Nil
  then show ?case by (simp add: validate_Nil)
next
  case (Cons row table)
  show ?case
  proof (cases "validate_row row")
    case (Inl e)
    then show ?thesis using Cons.prems by (simp add: validate_Cons)
  next
    case (Inr keep)
    show ?thesis
    proof (cases keep)
      case None
      then have h: "labelled_header row" using Inr validate_row_drop by simp
      then have "is_header row" by (rule labelled_header_is_header)
      moreover have "validate table = Inr out"
        using Cons.prems Inr None by (simp add: validate_Cons)
      ultimately show ?thesis using Cons.IH h by simp
    next
      case (Some r)
      then have k: "row \<noteq> []" "None \<notin> set row" "\<not> is_header row" "r = map (strip_star \<circ> the) row"
        using Inr validate_row_keep by simp_all
      obtain rs where rs: "validate table = Inr rs" "out = r # rs"
        using Cons.prems Inr Some by (auto simp: validate_Cons split: sum.splits)
      show ?thesis using Cons.IH [OF rs(1)] rs(2) k by simp
    qed
  qed
qed


lemma validate_snoc_row:
  "validate pre = Inr v \<Longrightarrow>
     validate (pre @ row # post) =
       (case validate_row row of
          Inl e \<Rightarrow> Inl e
        | Inr None \<Rightarrow> (case validate post of Inl e \<Rightarrow> Inl e | Inr w \<Rightarrow> Inr (v @ w))
        | Inr (Some r) \<Rightarrow> (case validate post of Inl e \<Rightarrow> Inl e | Inr w \<Rightarrow> Inr (v @ r # w)))"
  by (simp add: validate_append validate_Cons split: sum.splits option.splits)

subsection \<open>Header rows\<close>

text \<open>
  Claim C3. When \<^verbatim>\<open>validate\<close> returns, its result is the input table without the
  rows whose first cell contains \<^verbatim>\<open>Day\<close>, whose second cell contains
  \<^verbatim>\<open>New staff\<close> and whose third cell contains \<^verbatim>\<open>New student\<close> (the kept rows
  with their cells stripped, in input order). A row whose first cell contains \<^verbatim>\<open>Day\<close>
  and whose second or third cell is a text without its label raises the assertion failure,
  once the rows before it have passed; and a table that holds a row whose first cell contains
  \<^verbatim>\<open>Day\<close> and that is not such a labelled header never validates.
\<close>

theorem validate_drops_labelled_headers:
  "(validate table = Inr out \<longrightarrow>
      out = map (map (strip_star \<circ> the)) (filter (\<lambda>row. \<not> labelled_header row) table)) \<and>
   (validate pre = Inr v \<and> contains ''Day'' c0 \<and>
      \<not> (contains ''New staff'' c1 \<and> contains ''New student'' c2) \<longrightarrow>
      validate (pre @ (Some c0 # Some c1 # Some c2 # rest) # post) = Inl AssertionError) \<and>
   (row \<in> set rows \<and> is_header row \<and> \<not> labelled_header row \<longrightarrow>
      (\<exists>e. validate rows = Inl e))"
proof (intro conjI impI)
  assume ok: "validate table = Inr out"
  note v = validate_Inr [OF ok]
  have "filter (\<lambda>row. \<not> is_header row) table = filter (\<lambda>row. \<not> labelled_header row) table"
  proof (rule filter_cong [OF refl])
    fix row assume "row \<in> set table"
    then show "(\<not> is_header row) = (\<not> labelled_header row)"
      using v labelled_header_is_header [of row] by (auto split: if_splits)
  qed
  then show "out = map (map (strip_star \<circ> the)) (filter (\<lambda>row. \<not> labelled_header row) table)"
    using v by simp
next
  assume h: "validate pre = Inr v \<and> contains ''Day'' c0 \<and>
      \<not> (contains ''New staff'' c1 \<and> contains ''New student'' c2)"
  then have "validate_row (Some c0 # Some c1 # Some c2 # rest) = Inl AssertionError"
    by (auto simp: validate_row_Some)
  then show "validate (pre @ (Some c0 # Some c1 # Some c2 # rest) # post) = Inl AssertionError"
    using h by (simp add: validate_snoc_row)
next
  assume h: "row \<in> set rows \<and> is_header row \<and> \<not> labelled_header row"
  show "\<exists>e. validate rows = Inl e"
  proof (cases "validate rows")
    case (Inl e)
    then show ?thesis by blast
  next
    case (Inr out')
    then show ?thesis using validate_Inr [OF Inr] h by (auto split: if_splits)
  qed
qed

theorem validate_drops_labelled_headers_witness:
  "validate [[Some ''Day'', Some ''New staff cases'', Some ''New student cases''],
             [Some ''11 October 2020*'', Some ''5*'', Some ''12'']]
     = Inr [[''11 October 2020'', ''5'', ''12'']] \<and>
   [[''11 October 2020'', ''5'', ''12'']] =
     map (map (strip_star \<circ> the))
       (filter (\<lambda>row. \<not> labelled_header row)
         [[Some ''Day'', Some ''New staff cases'', Some ''New student cases''],
          [Some ''11 October 2020*'', Some ''5*'', Some ''12'']]) \<and>
   validate [[Some ''12 October 2020'', Some ''1'', Some ''2'']]
     = Inr [[''12 October 2020'', ''1'', ''2'']] \<and>
   contains ''Day'' ''Day'' \<and> \<not> (contains ''New staff'' ''Foo'' \<and> contains ''New student'' ''Bar'') \<and>
   validate ([[Some ''12 October 2020'', Some ''1'', Some ''2'']] @
             [Some ''Day'', Some ''Foo'', Some ''Bar''] # []) = Inl AssertionError \<and>
   [Some ''Day'', Some ''New staff cases''] \<in> set [[Some ''Day'', Some ''New staff cases'']] \<and>
   is_header [Some ''Day'', Some ''New staff cases''] \<and>
   \<not> labelled_header [Some ''Day'', Some ''New staff cases''] \<and>
   (\<exists>e. validate [[Some ''Day'', Some ''New staff cases'']] = Inl e)"
proof -
  have h1: "validate [[Some ''Day'', Some ''New staff cases'', Some ''New student cases''],
             [Some ''11 October 2020*'', Some ''5*'', Some ''12'']]
     = Inr [[''11 October 2020'', ''5'', ''12'']]"
    by code_simp
  have h2: "validate [[Some ''12 October 2020'', Some ''1'', Some ''2'']]
     = Inr [[''12 October 2020'', ''1'', ''2'']]"
    by code_simp
  have h3: "contains ''Day'' ''Day'' \<and>
      \<not> (contains ''New staff'' ''Foo'' \<and> contains ''New student'' ''Bar'')"
    by code_simp
  have h4: "is_header [Some ''Day'', Some ''New staff cases''] \<and>
      \<not> labelled_header [Some ''Day'', Some ''New staff cases'']"
    by code_simp
  show ?thesis
    using validate_drops_labelled_headers
      [of "[[Some ''Day'', Some ''New staff cases'', Some ''New student cases''],
             [Some ''11 October 2020*'', Some ''5*'', Some ''12'']]"
          "[[''11 October 2020'', ''5'', ''12'']]"
          "[[Some ''12 October 2020'', Some ''1'', Some ''2'']]"
          "[[''12 October 2020'', ''1'', ''2'']]"
          "''Day''" "''Foo''" "''Bar''" "[]" "[]"
          "[Some ''Day'', Some ''New staff cases'']"
          "[[Some ''Day'', Some ''New staff cases'']]"]
      h1 h2 h3 h4
    by simp
qed

subsection \<open>Trailing asterisks\<close>

text \<open>
  Claim C6. When \<^verbatim>\<open>validate\<close> returns, its rows are, in order, the rows of the table
  whose first cell does not contain \<^verbatim>\<open>Day\<close>, cell by cell: a cell that ends in an
  asterisk comes out without that one asterisk and otherwise as it was (so \<^verbatim>\<open>5**\<close>
  becomes \<^verbatim>\<open>5*\<close>), and a cell that does not end in an asterisk comes out unchanged.
\<close>

theorem validate_strips_one_trailing_asterisk:
  "validate table = Inr out \<Longrightarrow>
     list_all2
       (\<lambda>row r. list_all2
          (\<lambda>c x. \<exists>s. c = Some s \<and> (\<forall>t. s = t @ ''*'' \<longrightarrow> x = t) \<and>
                      ((\<forall>t. s \<noteq> t @ ''*'') \<longrightarrow> x = s)) row r)
       (filter (\<lambda>row. \<not> is_header row) table) out"
proof -
  assume ok: "validate table = Inr out"
  note v = validate_Inr [OF ok]
  have cell: "\<exists>s. c = Some s \<and> (\<forall>t. s = t @ ''*'' \<longrightarrow> (strip_star \<circ> the) c = t) \<and>
                  ((\<forall>t. s \<noteq> t @ ''*'') \<longrightarrow> (strip_star \<circ> the) c = s)"
    if nn: "c \<noteq> None" for c
  proof -
    obtain s where s: "c = Some s" using nn by auto
    show ?thesis using s strip_star_snoc strip_star_other by auto
  qed
  have row: "list_all2
          (\<lambda>c x. \<exists>s. c = Some s \<and> (\<forall>t. s = t @ ''*'' \<longrightarrow> x = t) \<and>
                      ((\<forall>t. s \<noteq> t @ ''*'') \<longrightarrow> x = s)) row (map (strip_star \<circ> the) row)"
    if nn: "None \<notin> set row" for row
    unfolding list_all2_map2
  proof (rule list_all2_all_nthI)
    show "length row = length row" by simp
  next
    fix n assume "n < length row"
    then have "row ! n \<noteq> None" using nn by (metis nth_mem)
    then show "\<exists>s. row ! n = Some s \<and> (\<forall>t. s = t @ ''*'' \<longrightarrow> (strip_star \<circ> the) (row ! n) = t) \<and>
                  ((\<forall>t. s \<noteq> t @ ''*'') \<longrightarrow> (strip_star \<circ> the) (row ! n) = s)"
      by (rule cell)
  qed
  have "list_all2
       (\<lambda>row r. list_all2
          (\<lambda>c x. \<exists>s. c = Some s \<and> (\<forall>t. s = t @ ''*'' \<longrightarrow> x = t) \<and>
                      ((\<forall>t. s \<noteq> t @ ''*'') \<longrightarrow> x = s)) row r)
       (filter (\<lambda>row. \<not> is_header row) table)
       (map (map (strip_star \<circ> the)) (filter (\<lambda>row. \<not> is_header row) table))"
  proof (rule list_all2_all_nthI)
    show "length (filter (\<lambda>row. \<not> is_header row) table) =
          length (map (map (strip_star \<circ> the)) (filter (\<lambda>row. \<not> is_header row) table))"
      by simp
  next
    fix n assume n: "n < length (filter (\<lambda>row. \<not> is_header row) table)"
    let ?row = "filter (\<lambda>row. \<not> is_header row) table ! n"
    have "?row \<in> set (filter (\<lambda>row. \<not> is_header row) table)" using n by (rule nth_mem)
    then have "?row \<in> set table" "\<not> is_header ?row" by auto
    then have "None \<notin> set ?row" using v by (auto split: if_splits)
    then have "list_all2
          (\<lambda>c x. \<exists>s. c = Some s \<and> (\<forall>t. s = t @ ''*'' \<longrightarrow> x = t) \<and>
                      ((\<forall>t. s \<noteq> t @ ''*'') \<longrightarrow> x = s)) ?row (map (strip_star \<circ> the) ?row)"
      by (rule row)
    then show "list_all2
          (\<lambda>c x. \<exists>s. c = Some s \<and> (\<forall>t. s = t @ ''*'' \<longrightarrow> x = t) \<and>
                      ((\<forall>t. s \<noteq> t @ ''*'') \<longrightarrow> x = s)) ?row
          (map (map (strip_star \<circ> the)) (filter (\<lambda>row. \<not> is_header row) table) ! n)"
      using n by simp
  qed
  then show ?thesis using v by simp
qed

theorem validate_strips_one_trailing_asterisk_witness:
  "validate [[Some ''Day'', Some ''New staff cases'', Some ''New student cases''],
             [Some ''11 October 2020*'', Some ''5**'', Some ''1*2'']]
     = Inr [[''11 October 2020'', ''5*'', ''1*2'']] \<and>
   list_all2
       (\<lambda>row r. list_all2
          (\<lambda>c x. \<exists>s. c = Some s \<and> (\<forall>t. s = t @ ''*'' \<longrightarrow> x = t) \<and>
                      ((\<forall>t. s \<noteq> t @ ''*'') \<longrightarrow> x = s)) row r)
       (filter (\<lambda>row. \<not> is_header row)
          [[Some ''Day'', Some ''New staff cases'', Some ''New student cases''],
           [Some ''11 October 2020*'', Some ''5**'', Some ''1*2'']])
       [[''11 October 2020'', ''5*'', ''1*2'']]"
proof -
  have h: "validate [[Some ''Day'', Some ''New staff cases'', Some ''New student cases''],
             [Some ''11 October 2020*'', Some ''5**'', Some ''1*2'']]
     = Inr [[''11 October 2020'', ''5*'', ''1*2'']]"
    by code_simp
  show ?thesis
    using h validate_strips_one_trailing_asterisk [OF h] by blast
qed

subsection \<open>Rows that are not rows of texts\<close>

text \<open>
  Against claim C10 as it is worded: a header row with its labels in place is dropped without
  any error although a cell after the third is \<^verbatim>\<open>None\<close>, and a row of two cells whose
  first contains \<^verbatim>\<open>Day\<close> raises the assertion failure, not \<^verbatim>\<open>IndexError\<close>, when
  its second cell lacks the label.
\<close>

theorem validate_ill_formed_rows_counterexample:
  "validate [[Some ''Day'', Some ''New staff cases'', Some ''New student cases'', None]] = Inr [] \<and>
   validate [[Some ''Day'', Some ''Foo'']] = Inl AssertionError"
  by code_simp

text \<open>
  Claim C10, amended. Once the rows before it have passed, a row raises as follows. An empty
  row: \<^verbatim>\<open>IndexError\<close>. A row whose first cell is \<^verbatim>\<open>None\<close>: \<^verbatim>\<open>TypeError\<close>.
  A row whose first cell is a text without \<^verbatim>\<open>Day\<close> and that has a \<^verbatim>\<open>None\<close> cell
  after it: \<^verbatim>\<open>AttributeError\<close>. A row whose first cell contains \<^verbatim>\<open>Day\<close>:
  \<^verbatim>\<open>IndexError\<close> when it has no second cell, or has a second cell with its label and
  no third cell; \<^verbatim>\<open>TypeError\<close> when the second cell is \<^verbatim>\<open>None\<close>, or the second
  cell has its label and the third is \<^verbatim>\<open>None\<close>; the assertion failure when the second
  cell is a text without its label, however short the row is. Cells after the third of a header
  row are never read: with its three labels in place the row is dropped, whatever follows them.
\<close>

theorem validate_ill_formed_rows:
  "validate pre = Inr v \<Longrightarrow>
     validate (pre @ [] # post) = Inl IndexError \<and>
     validate (pre @ (None # cs) # post) = Inl TypeError \<and>
     (\<not> contains ''Day'' c0 \<and> None \<in> set cs \<longrightarrow>
        validate (pre @ (Some c0 # cs) # post) = Inl AttributeError) \<and>
     (contains ''Day'' c0 \<longrightarrow>
        validate (pre @ [Some c0] # post) = Inl IndexError \<and>
        validate (pre @ (Some c0 # None # cs) # post) = Inl TypeError \<and>
        (\<not> contains ''New staff'' c1 \<longrightarrow>
           validate (pre @ (Some c0 # Some c1 # cs) # post) = Inl AssertionError) \<and>
        (contains ''New staff'' c1 \<longrightarrow>
           validate (pre @ [Some c0, Some c1] # post) = Inl IndexError \<and>
           validate (pre @ (Some c0 # Some c1 # None # cs) # post) = Inl TypeError \<and>
           (contains ''New student'' c2 \<longrightarrow>
              validate (pre @ (Some c0 # Some c1 # Some c2 # cs) # post) =
                (case validate post of Inl e \<Rightarrow> Inl e | Inr w \<Rightarrow> Inr (v @ w)))))"
  by (simp add: validate_snoc_row validate_row_Nil validate_row_None validate_row_Some)


theorem validate_ill_formed_rows_witness:
  "validate [[Some ''12 October 2020'', Some ''1'', Some ''2'']]
     = Inr [[''12 October 2020'', ''1'', ''2'']] \<and>
   \<not> contains ''Day'' ''13 October 2020'' \<and> None \<in> set [None :: cell] \<and>
   contains ''Day'' ''Day'' \<and> \<not> contains ''New staff'' ''Foo'' \<and>
   contains ''New staff'' ''New staff cases'' \<and> contains ''New student'' ''New student cases'' \<and>
   validate ([[Some ''12 October 2020'', Some ''1'', Some ''2'']] @ [] # []) = Inl IndexError \<and>
   validate ([[Some ''12 October 2020'', Some ''1'', Some ''2'']] @ (None # [None]) # [])
     = Inl TypeError \<and>
   validate ([[Some ''12 October 2020'', Some ''1'', Some ''2'']] @
             (Some ''13 October 2020'' # [None]) # []) = Inl AttributeError \<and>
   validate ([[Some ''12 October 2020'', Some ''1'', Some ''2'']] @ [Some ''Day''] # [])
     = Inl IndexError \<and>
   validate ([[Some ''12 October 2020'', Some ''1'', Some ''2'']] @
             (Some ''Day'' # None # [None]) # []) = Inl TypeError \<and>
   validate ([[Some ''12 October 2020'', Some ''1'', Some ''2'']] @
             (Some ''Day'' # Some ''Foo'' # [None]) # []) = Inl AssertionError \<and>
   validate ([[Some ''12 October 2020'', Some ''1'', Some ''2'']] @
             [Some ''Day'', Some ''New staff cases''] # []) = Inl IndexError \<and>
   validate ([[Some ''12 October 2020'', Some ''1'', Some ''2'']] @
             (Some ''Day'' # Some ''New staff cases'' # None # [None]) # []) = Inl TypeError \<and>
   validate ([[Some ''12 October 2020'', Some ''1'', Some ''2'']] @
             (Some ''Day'' # Some ''New staff cases'' # Some ''New student cases'' # [None]) # [])
     = Inr [[''12 October 2020'', ''1'', ''2'']]"
proof -
  have h: "validate [[Some ''12 October 2020'', Some ''1'', Some ''2'']]
     = Inr [[''12 October 2020'', ''1'', ''2'']]"
    by code_simp
  have c: "\<not> contains ''Day'' ''13 October 2020''" "contains ''Day'' ''Day''"
    "\<not> contains ''New staff'' ''Foo''" "contains ''New staff'' ''New staff cases''"
    "contains ''New student'' ''New student cases''"
    by code_simp+
  show ?thesis
    using h c
      validate_ill_formed_rows [OF h, where post = "[]" and cs = "[None]"
        and ?c0.0 = "''13 October 2020''"]
      validate_ill_formed_rows [OF h, where post = "[]" and cs = "[None]"
        and ?c0.0 = "''Day''" and ?c1.0 = "''Foo''"]
      validate_ill_formed_rows [OF h, where post = "[]" and cs = "[None]"
        and ?c0.0 = "''Day''" and ?c1.0 = "''New staff cases''"
        and ?c2.0 = "''New student cases''"]
    by (simp add: validate_Nil)
qed

section \<open>Loops and sorted()\<close>

lemma append_loop_acc:
  "append_loop body acc rows =
     (case append_loop body [] rows of Inl e \<Rightarrow> Inl e | Inr r \<Rightarrow> Inr (acc @ r))"
proof (induction rows arbitrary: acc)
  case Nil
  then show ?case by simp
next
  case (Cons row rows)
  show ?case
  proof (cases "body row")
    case (Inl e)
    then show ?thesis by simp
  next
    case (Inr out)
    then show ?thesis
      using Cons.IH [of "acc @ [out]"] Cons.IH [of "[out]"] by (simp split: sum.splits)
  qed
qed

lemma append_loop_Cons:
  "append_loop body [] (row # rows) =
     (case body row of
        Inl e \<Rightarrow> Inl e
      | Inr out \<Rightarrow> (case append_loop body [] rows of Inl e \<Rightarrow> Inl e | Inr r \<Rightarrow> Inr (out # r)))"
  by (simp add: append_loop_acc [of _ "[_]"] split: sum.splits)

lemma append_loop_Inr:
  "append_loop body [] rows = Inr r \<longleftrightarrow> list_all2 (\<lambda>row out. body row = Inr out) rows r"
proof (induction rows arbitrary: r)
  case Nil
  then show ?case by auto
next
  case (Cons row rows)
  show ?case
    by (cases "body row"; cases "append_loop body [] rows")
       (auto simp: append_loop_Cons Cons.IH [symmetric] list_all2_Cons1
             simp del: append_loop.simps(2))
qed


lemma insert_row_key:
  fixes k :: "pyval list \<Rightarrow> 'k::linorder"
  assumes cmp: "\<And>a b. a \<in> A \<Longrightarrow> b \<in> A \<Longrightarrow> list_lt a b = Inr (k a < k b)"
    and x: "x \<in> A" and ps: "set ps \<subseteq> A"
  shows "\<exists>r. insert_row x ps = Inr r \<and> mset r = add_mset x (mset ps) \<and>
           (sorted (map k ps) \<longrightarrow> sorted (map k r))"
  using ps
proof (induction ps)
  case Nil
  then show ?case by simp
next
  case (Cons p ps)
  then have p: "p \<in> A" and ps': "set ps \<subseteq> A" by auto
  have c: "list_lt x p = Inr (k x < k p)" using cmp x p by simp
  show ?case
  proof (cases "k x < k p")
    case True
    then show ?thesis using c by auto
  next
    case False
    obtain r where r: "insert_row x ps = Inr r" "mset r = add_mset x (mset ps)"
      "sorted (map k ps) \<longrightarrow> sorted (map k r)"
      using Cons.IH [OF ps'] by blast
    have "set r = insert x (set ps)" using r(2) by (metis set_mset_add_mset_insert set_mset_mset)
    then have "sorted (map k (p # ps)) \<longrightarrow> sorted (map k (p # r))"
      using r(3) False by auto
    then show ?thesis using c False r by auto
  qed
qed

lemma sorted_loop_key:
  fixes k :: "pyval list \<Rightarrow> 'k::linorder"
  assumes cmp: "\<And>a b. a \<in> A \<Longrightarrow> b \<in> A \<Longrightarrow> list_lt a b = Inr (k a < k b)"
    and "set acc \<subseteq> A" and "set xs \<subseteq> A" and "sorted (map k acc)"
  shows "\<exists>r. sorted_loop acc xs = Inr r \<and> mset r = mset acc + mset xs \<and> sorted (map k r)"
  using assms(2-)
proof (induction xs arbitrary: acc)
  case Nil
  then show ?case by simp
next
  case (Cons x xs)
  then have x: "x \<in> A" and xs: "set xs \<subseteq> A" by auto
  obtain r where r: "insert_row x acc = Inr r" "mset r = add_mset x (mset acc)" "sorted (map k r)"
    using insert_row_key [of A k x acc, OF cmp x Cons.prems(1)] Cons.prems(3) by blast
  have "set r \<subseteq> A" using r(2) x Cons.prems(1)
    by (metis insert_subset set_mset_add_mset_insert set_mset_mset)
  from Cons.IH [OF this xs r(3)] obtain r' where
    "sorted_loop r xs = Inr r'" "mset r' = mset r + mset xs" "sorted (map k r')" by blast
  then show ?case using r by auto
qed

lemma py_sorted_key:
  fixes k :: "pyval list \<Rightarrow> 'k::linorder"
  assumes cmp: "\<And>a b. a \<in> A \<Longrightarrow> b \<in> A \<Longrightarrow> list_lt a b = Inr (k a < k b)"
    and "set xs \<subseteq> A"
  shows "\<exists>r. py_sorted xs = Inr r \<and> mset r = mset xs \<and> sorted (map k r)"
  using sorted_loop_key [of A k "[]" xs, OF cmp] assms(2) by (simp add: py_sorted_def)

section \<open>What transform and heat\_transform compute\<close>

lemma list_lt_ints: "list_lt (map PInt vs) (map PInt ws) = Inr (vs < ws)"
proof (induction vs arbitrary: ws)
  case Nil
  then show ?case by (cases ws) simp_all
next
  case (Cons v vs)
  then show ?case by (cases ws) auto
qed

lemma list_lt_record:
  "list_lt (PStr s # map PInt vs) (PStr t # map PInt ws) = Inr ((s, vs) < (t, ws))"
  by (auto simp: list_lt_ints)

lemma list_lt_heat_record:
  "list_lt (PStr a # PStr s # map PInt vs) (PStr b # PStr t # map PInt ws)
     = Inr ((a, s, vs) < (b, t, ws))"
  by (auto simp: list_lt_ints)

lemma int_cells_eq:
  "int_cells xs =
     (if list_all (\<lambda>x. py_int x \<noteq> None) xs then Inr (map (\<lambda>x. PInt (the (py_int x))) xs)
      else Inl ValueError)"
  by (induction xs) (auto split: option.splits)

lemma transform_row_eq:
  "transform_row parse row =
     (if row = [] then Inl IndexError
      else if parse (hd row) = None then Inl DateParserError
      else if accepted parse row then Inr (record_of parse row)
      else Inl ValueError)"
  by (cases row) (auto simp: transform_row_def accepted_def record_of_def int_cells_eq split: option.splits)

lemma heat_transform_row_eq:
  "heat_transform_row parse row =
     (if row = [] then Inl IndexError
      else if parse (hd row) = None then Inl DateParserError
      else if accepted parse row then Inr (heat_record_of parse row)
      else Inl ValueError)"
  by (cases row)
     (auto simp: heat_transform_row_def accepted_def heat_record_of_def record_of_def int_cells_eq
           split: option.splits)

lemma row_key_record: "row_key (PStr s # map PInt vs) = (s, vs)"
  by (simp add: row_key_def comp_def)

lemma heat_key_record: "heat_key (PStr a # PStr s # map PInt vs) = (a, s, vs)"
  by (simp add: heat_key_def comp_def)

lemma record_of_shape: "\<exists>s vs. record_of parse row = PStr s # map PInt vs"
proof -
  have "record_of parse row =
      PStr (isoformat (the (parse (hd row)))) # map PInt (map (\<lambda>x. the (py_int x)) (tl row))"
    by (simp add: record_of_def)
  then show ?thesis by blast
qed

lemma heat_record_of_shape: "\<exists>a s vs. heat_record_of parse row = PStr a # PStr s # map PInt vs"
  using record_of_shape [of parse row] by (auto simp: heat_record_of_def)

lemma py_sorted_records:
  "\<exists>r. py_sorted (map (record_of parse) rows) = Inr r \<and>
       mset r = mset (map (record_of parse) rows) \<and> sorted (map row_key r)"
proof (rule py_sorted_key [where A = "{r. \<exists>s vs. r = PStr s # map PInt vs}"])
  fix a b :: "pyval list"
  assume "a \<in> {r. \<exists>s vs. r = PStr s # map PInt vs}" "b \<in> {r. \<exists>s vs. r = PStr s # map PInt vs}"
  then obtain s vs t ws where ab: "a = PStr s # map PInt vs" "b = PStr t # map PInt ws" by blast
  show "list_lt a b = Inr (row_key a < row_key b)"
    unfolding ab row_key_record by (rule list_lt_record)
next
  show "set (map (record_of parse) rows) \<subseteq> {r. \<exists>s vs. r = PStr s # map PInt vs}"
    using record_of_shape by auto
qed

lemma py_sorted_heat_records:
  "\<exists>r. py_sorted (map (heat_record_of parse) rows) = Inr r \<and>
       mset r = mset (map (heat_record_of parse) rows) \<and> sorted (map heat_key r)"
proof (rule py_sorted_key [where A = "{r. \<exists>a s vs. r = PStr a # PStr s # map PInt vs}"])
  fix a b :: "pyval list"
  assume "a \<in> {r. \<exists>a s vs. r = PStr a # PStr s # map PInt vs}"
    "b \<in> {r. \<exists>a s vs. r = PStr a # PStr s # map PInt vs}"
  then obtain a0 s vs b0 t ws where ab: "a = PStr a0 # PStr s # map PInt vs"
    "b = PStr b0 # PStr t # map PInt ws" by blast
  show "list_lt a b = Inr (heat_key a < heat_key b)"
    unfolding ab heat_key_record by (rule list_lt_heat_record)
next
  show "set (map (heat_record_of parse) rows) \<subseteq> {r. \<exists>a s vs. r = PStr a # PStr s # map PInt vs}"
    using heat_record_of_shape by auto
qed

lemma loop_records:
  assumes "\<And>row. body row = (if row = [] then Inl IndexError
              else if parse (hd row) = None then Inl DateParserError
              else if accepted parse row then Inr (f row) else Inl ValueError)"
  shows "append_loop body [] rows = Inr r \<longleftrightarrow> list_all (accepted parse) rows \<and> r = map f rows"
proof -
  have "list_all2 (\<lambda>row out. body row = Inr out) rows r \<longleftrightarrow>
        list_all (accepted parse) rows \<and> r = map f rows"
  proof (induction rows arbitrary: r)
    case Nil
    then show ?case by auto
  next
    case (Cons row rows)
    have "body row = Inr out \<longleftrightarrow> accepted parse row \<and> out = f row" for out
      unfolding assms by (auto simp: accepted_def)
    then show ?case using Cons.IH by (auto simp: list_all2_Cons1)
  qed
  then show ?thesis by (simp add: append_loop_Inr)
qed

lemma transform_Inr:
  "transform parse rows = Inr out \<longleftrightarrow>
     list_all (accepted parse) rows \<and> py_sorted (map (record_of parse) rows) = Inr out"
proof (cases "append_loop (transform_row parse) [] rows")
  case (Inl e)
  then have "\<not> list_all (accepted parse) rows"
    using loop_records [of "transform_row parse" parse "record_of parse" rows, OF transform_row_eq]
    by auto
  then show ?thesis using Inl by (simp add: transform_def)
next
  case (Inr r)
  then have "list_all (accepted parse) rows \<and> r = map (record_of parse) rows"
    using loop_records [of "transform_row parse" parse "record_of parse" rows r, OF transform_row_eq]
    by simp
  then show ?thesis using Inr by (simp add: transform_def)
qed

lemma heat_transform_Inr:
  "heat_transform parse rows = Inr out \<longleftrightarrow>
     list_all (accepted parse) rows \<and> py_sorted (map (heat_record_of parse) rows) = Inr out"
proof (cases "append_loop (heat_transform_row parse) [] rows")
  case (Inl e)
  then have "\<not> list_all (accepted parse) rows"
    using loop_records [of "heat_transform_row parse" parse "heat_record_of parse" rows,
        OF heat_transform_row_eq]
    by auto
  then show ?thesis using Inl by (simp add: heat_transform_def)
next
  case (Inr r)
  then have "list_all (accepted parse) rows \<and> r = map (heat_record_of parse) rows"
    using loop_records [of "heat_transform_row parse" parse "heat_record_of parse" rows r,
        OF heat_transform_row_eq]
    by simp
  then show ?thesis using Inr by (simp add: heat_transform_def)
qed

lemma transform_sorted:
  assumes "transform parse rows = Inr out"
  shows "list_all (accepted parse) rows" "mset out = mset (map (record_of parse) rows)"
    "sorted (map row_key out)"
proof -
  have a: "list_all (accepted parse) rows"
    and s: "py_sorted (map (record_of parse) rows) = Inr out"
    using assms transform_Inr by auto
  show "list_all (accepted parse) rows" by (rule a)
  obtain r where "py_sorted (map (record_of parse) rows) = Inr r"
    "mset r = mset (map (record_of parse) rows)" "sorted (map row_key r)"
    using py_sorted_records by blast
  then show "mset out = mset (map (record_of parse) rows)" "sorted (map row_key out)"
    using s by auto
qed

lemma heat_transform_sorted:
  assumes "heat_transform parse rows = Inr out"
  shows "list_all (accepted parse) rows" "mset out = mset (map (heat_record_of parse) rows)"
    "sorted (map heat_key out)"
proof -
  have a: "list_all (accepted parse) rows"
    and s: "py_sorted (map (heat_record_of parse) rows) = Inr out"
    using assms heat_transform_Inr by auto
  show "list_all (accepted parse) rows" by (rule a)
  obtain r where "py_sorted (map (heat_record_of parse) rows) = Inr r"
    "mset r = mset (map (heat_record_of parse) rows)" "sorted (map heat_key r)"
    using py_sorted_heat_records by blast
  then show "mset out = mset (map (heat_record_of parse) rows)" "sorted (map heat_key out)"
    using s by auto
qed

lemma transform_returns:
  "list_all (accepted parse) rows \<Longrightarrow> \<exists>out. transform parse rows = Inr out"
  using py_sorted_records [of parse rows] by (auto simp: transform_Inr)

lemma heat_transform_returns:
  "list_all (accepted parse) rows \<Longrightarrow> \<exists>out. heat_transform parse rows = Inr out"
  using py_sorted_heat_records [of parse rows] by (auto simp: heat_transform_Inr)

section \<open>Decimal text and ISO dates\<close>

lemma of_char_digit_char: "a < 10 \<Longrightarrow> of_char (digit_char a) = 48 + a"
  by (simp add: digit_char_def)

lemma digit_char_less: "a < 10 \<Longrightarrow> b < 10 \<Longrightarrow> digit_char a < digit_char b \<longleftrightarrow> a < b"
  by (simp add: less_char_def of_char_digit_char)

lemma digit_char_eq: "a < 10 \<Longrightarrow> b < 10 \<Longrightarrow> digit_char a = digit_char b \<longleftrightarrow> a = b"
proof -
  assume a: "a < 10" and b: "b < 10"
  show ?thesis
  proof
    assume "digit_char a = digit_char b"
    then have "(of_char (digit_char a) :: nat) = of_char (digit_char b)" by simp
    then show "a = b" using a b by (simp add: of_char_digit_char)
  qed simp
qed

lemma digit_char_0: "digit_char 0 = CHR ''0''"
  by (simp add: digit_char_def char_of_eq_iff)

lemma dec_1: "n < 10 \<Longrightarrow> dec n = [digit_char n]"
  by (simp add: dec.simps)

lemma dec_2: "10 \<le> n \<Longrightarrow> n < 100 \<Longrightarrow> dec n = [digit_char (n div 10), digit_char (n mod 10)]"
  by (subst dec.simps) (simp add: dec_1)

lemma dec_3: "100 \<le> n \<Longrightarrow> n < 1000 \<Longrightarrow>
    dec n = [digit_char (n div 100), digit_char (n div 10 mod 10), digit_char (n mod 10)]"
  by (subst dec.simps) (simp add: dec_2 div_mult2_eq [symmetric])

lemma dec_4: "1000 \<le> n \<Longrightarrow> n < 10000 \<Longrightarrow>
    dec n = [digit_char (n div 1000), digit_char (n div 100 mod 10),
             digit_char (n div 10 mod 10), digit_char (n mod 10)]"
  by (subst dec.simps) (simp add: dec_3 div_mult2_eq [symmetric])

lemma zero_pad_2: "n < 100 \<Longrightarrow> zero_pad 2 n = [digit_char (n div 10), digit_char (n mod 10)]"
proof (cases "n < 10")
  case True
  then show ?thesis by (simp add: zero_pad_def dec_1 digit_char_0 numeral_3_eq_3 numeral_2_eq_2)
next
  case False
  assume "n < 100"
  then show ?thesis using False by (simp add: zero_pad_def dec_2)
qed

lemma zero_pad_4: "n < 10000 \<Longrightarrow>
    zero_pad 4 n = [digit_char (n div 1000), digit_char (n div 100 mod 10),
                    digit_char (n div 10 mod 10), digit_char (n mod 10)]"
proof -
  assume n: "n < 10000"
  consider "n < 10" | "10 \<le> n" "n < 100" | "100 \<le> n" "n < 1000" | "1000 \<le> n" using n by linarith
  then show ?thesis
  proof cases
    case 1
    then show ?thesis by (simp add: zero_pad_def dec_1 digit_char_0 numeral_3_eq_3 numeral_2_eq_2)
  next
    case 2
    then show ?thesis by (simp add: zero_pad_def dec_2 digit_char_0 numeral_3_eq_3 numeral_2_eq_2)
  next
    case 3
    then show ?thesis by (simp add: zero_pad_def dec_3 digit_char_0 numeral_3_eq_3 numeral_2_eq_2)
  next
    case 4
    then show ?thesis using n by (simp add: zero_pad_def dec_4)
  qed
qed


lemma days_in_month_le: "days_in_month y m \<le> 31" if m: "1 \<le> m" "m \<le> 12"
proof -
  have "m = 1 \<or> m = 2 \<or> m = 3 \<or> m = 4 \<or> m = 5 \<or> m = 6 \<or> m = 7 \<or> m = 8 \<or> m = 9 \<or>
        m = 10 \<or> m = 11 \<or> m = 12"
    using m by arith
  then show ?thesis by (auto simp: days_in_month_def)
qed

lemma valid_date_bounds:
  "valid_date d \<Longrightarrow> year d < 10000 \<and> month d < 100 \<and> day d < 100"
  using days_in_month_le [of "month d" "year d"] by (auto simp: valid_date_def)

lemma isoformat_digits:
  "valid_date d \<Longrightarrow>
     isoformat d =
       [digit_char (year d div 1000), digit_char (year d div 100 mod 10),
        digit_char (year d div 10 mod 10), digit_char (year d mod 10), CHR ''-'',
        digit_char (month d div 10), digit_char (month d mod 10), CHR ''-'',
        digit_char (day d div 10), digit_char (day d mod 10)]"
  using valid_date_bounds [of d] by (simp add: isoformat_def zero_pad_2 zero_pad_4)

lemma split_base_less:
  fixes a b k :: nat
  assumes "0 < k"
  shows "a < b \<longleftrightarrow> a div k < b div k \<or> a div k = b div k \<and> a mod k < b mod k"
proof -
  have a: "a = k * (a div k) + a mod k" and b: "b = k * (b div k) + b mod k" by simp_all
  have ma: "a mod k < k" and mb: "b mod k < k" using assms by simp_all
  show ?thesis
  proof (cases "a div k = b div k")
    case True
    then show ?thesis by (metis a b nat_add_left_cancel_less less_irrefl)
  next
    case False
    show ?thesis
    proof (cases "a div k < b div k")
      case True
      then have "a div k + 1 \<le> b div k" by simp
      then have "k * (a div k) + k \<le> k * (b div k)"
        by (metis add_mult_distrib2 mult_le_mono2 nat_mult_1_right)
      then have "a < b" using a b ma by linarith
      then show ?thesis using True by simp
    next
      case F: False
      then have "b div k < a div k" using False by simp
      then have "\<not> a < b" by (meson div_le_mono leD less_imp_le)
      then show ?thesis using F False by simp
    qed
  qed
qed


lemma split_base_eq:
  fixes a b k :: nat
  shows "a = b \<longleftrightarrow> a div k = b div k \<and> a mod k = b mod k"
  by (metis div_mult_mod_eq)

lemma two_digits_less:
  fixes a b :: nat
  assumes "a < 100" "b < 100"
  shows "digit_char (a div 10) # digit_char (a mod 10) # r
         < digit_char (b div 10) # digit_char (b mod 10) # r' \<longleftrightarrow> a < b \<or> a = b \<and> r < r'"
proof -
  have d: "a div 10 < 10" "b div 10 < 10" "a mod 10 < 10" "b mod 10 < 10" using assms by auto
  show ?thesis
    unfolding split_base_less [of 10 a b, simplified] split_base_eq [of a b 10]
    using d by (auto simp: digit_char_less digit_char_eq)
qed



lemma four_digits_less:
  fixes a b :: nat
  assumes "a < 10000" "b < 10000"
  shows "digit_char (a div 1000) # digit_char (a div 100 mod 10) #
          digit_char (a div 10 mod 10) # digit_char (a mod 10) # r
         < digit_char (b div 1000) # digit_char (b div 100 mod 10) #
            digit_char (b div 10 mod 10) # digit_char (b mod 10) # r' \<longleftrightarrow> a < b \<or> a = b \<and> r < r'"
proof -
  have e1: "x div 1000 = x div 100 div 10" for x :: nat
    by (simp add: div_mult2_eq [symmetric])
  have e2: "x div 10 mod 10 = x mod 100 div 10" for x :: nat
    using mod_mult2_eq [of x 10 10] by simp
  have e3: "x mod 10 = x mod 100 mod 10" for x :: nat
    by (simp add: mod_mod_cancel)
  have h: "a div 100 < 100" "b div 100 < 100" "a mod 100 < 100" "b mod 100 < 100"
    using assms by auto
  have "digit_char (a div 1000) # digit_char (a div 100 mod 10) #
          digit_char (a div 10 mod 10) # digit_char (a mod 10) # r
         < digit_char (b div 1000) # digit_char (b div 100 mod 10) #
            digit_char (b div 10 mod 10) # digit_char (b mod 10) # r'
     \<longleftrightarrow>
        digit_char (a div 100 div 10) # digit_char (a div 100 mod 10) #
          digit_char (a mod 100 div 10) # digit_char (a mod 100 mod 10) # r
         < digit_char (b div 100 div 10) # digit_char (b div 100 mod 10) #
            digit_char (b mod 100 div 10) # digit_char (b mod 100 mod 10) # r'"
    by (simp only: e1 [of a] e1 [of b] e2 [of a] e2 [of b] e3 [of a] e3 [of b])
  also have "\<dots> \<longleftrightarrow> a div 100 < b div 100 \<or> a div 100 = b div 100 \<and>
      (a mod 100 < b mod 100 \<or> a mod 100 = b mod 100 \<and> r < r')"
    unfolding two_digits_less [OF h(1,2)] two_digits_less [OF h(3,4)] by (rule refl)
  also have "\<dots> \<longleftrightarrow> a < b \<or> a = b \<and> r < r'"
    unfolding split_base_less [of 100 a b, simplified] split_base_eq [of a b 100] by blast
  finally show ?thesis .
qed

lemma dash_less: "CHR ''-'' # x < CHR ''-'' # y \<longleftrightarrow> x < y"
  by simp

lemma isoformat_less:
  assumes "valid_date d1" "valid_date d2"
  shows "isoformat d1 < isoformat d2 \<longleftrightarrow> date_key d1 < date_key d2"
proof -
  note b1 = valid_date_bounds [OF assms(1)] and b2 = valid_date_bounds [OF assms(2)]
  have y: "year d1 < 10000" "year d2 < 10000" and m: "month d1 < 100" "month d2 < 100"
    and d: "day d1 < 100" "day d2 < 100"
    using b1 b2 by simp_all
  have "isoformat d1 < isoformat d2 \<longleftrightarrow>
      year d1 < year d2 \<or> year d1 = year d2 \<and>
        (month d1 < month d2 \<or> month d1 = month d2 \<and>
          (day d1 < day d2 \<or> day d1 = day d2 \<and> ([] :: string) < []))"
    unfolding isoformat_digits [OF assms(1)] isoformat_digits [OF assms(2)]
      four_digits_less [OF y] dash_less two_digits_less [OF m] two_digits_less [OF d]
    by (rule refl)
  then show ?thesis by (auto simp: date_key_def)
qed

lemma isoformat_inj:
  assumes "valid_date d1" "valid_date d2" "isoformat d1 = isoformat d2"
  shows "d1 = d2"
proof -
  have "\<not> date_key d1 < date_key d2" "\<not> date_key d2 < date_key d1"
    using assms isoformat_less [of d1 d2] isoformat_less [of d2 d1] by simp_all
  then have "date_key d1 = date_key d2" by (simp add: not_less order.antisym)
  then show ?thesis by (simp add: date_key_def)
qed

lemma occurs_before:
  fixes k :: "'a \<Rightarrow> 'k::linorder"
  assumes "sorted (map k out)" "a \<in> set out" "b \<in> set out" "k a < k b"
  shows "\<exists>i j. i < j \<and> j < length out \<and> out ! i = a \<and> out ! j = b"
proof -
  obtain i where i: "i < length out" "out ! i = a" using assms(2) by (auto simp: in_set_conv_nth)
  obtain j where j: "j < length out" "out ! j = b" using assms(3) by (auto simp: in_set_conv_nth)
  have "i < j"
  proof (rule ccontr)
    assume "\<not> i < j"
    then have "j \<le> i" by simp
    then have "map k out ! j \<le> map k out ! i"
      using assms(1) i(1) by (simp add: sorted_iff_nth_mono)
    then have "k b \<le> k a" using i j by simp
    then show False using assms(4) by simp
  qed
  then show ?thesis using i j by blast
qed

lemma sorted_fst_key:
  fixes k :: "'a \<Rightarrow> ('b::linorder) \<times> ('c::linorder)"
  assumes "sorted (map k xs)"
  shows "sorted (map (fst \<circ> k) xs)"
proof -
  have "sorted_wrt (\<lambda>x y. k x \<le> k y) xs" using assms by (simp add: sorted_map)
  then have "sorted_wrt (\<lambda>x y. (fst \<circ> k) x \<le> (fst \<circ> k) y) xs"
  proof (rule sorted_wrt_mono_rel [rotated])
    fix x y assume "k x \<le> k y"
    then show "(fst \<circ> k) x \<le> (fst \<circ> k) y"
      by (cases "k x"; cases "k y") auto
  qed
  then show ?thesis by (simp add: sorted_map)
qed

lemma fst_row_key: "fst \<circ> row_key = str_of \<circ> hd"
  by (auto simp: row_key_def)

lemma fst_heat_key: "fst (heat_key r) = str_of (r ! 0)"
  by (simp add: heat_key_def)

lemma record_of_date: "str_of (hd (record_of parse row)) = isoformat (the (parse (hd row)))"
  by (simp add: record_of_def)

lemma row_key_record_of:
  "row_key (record_of parse row) =
     (isoformat (the (parse (hd row))), map (\<lambda>x. the (py_int x)) (tl row))"
  by (simp add: record_of_def row_key_def comp_def)

section \<open>Runs on the dashboard's dates\<close>

lemma parse_dmy_oct:
  "parse_dmy ''11 October 2020'' = Some \<lparr>year = 2020, month = 10, day = 11\<rparr>"
  "parse_dmy ''12 October 2020'' = Some \<lparr>year = 2020, month = 10, day = 12\<rparr>"
  by code_simp+

lemma isoformat_oct:
  "isoformat \<lparr>year = 2020, month = 10, day = 11\<rparr> = ''2020-10-11''"
  "isoformat \<lparr>year = 2020, month = 10, day = 12\<rparr> = ''2020-10-12''"
  by code_simp+

lemma valid_date_oct:
  "valid_date \<lparr>year = 2020, month = 10, day = 11\<rparr>"
  "valid_date \<lparr>year = 2020, month = 10, day = 12\<rparr>"
  by code_simp+

lemma weekday_oct:
  "weekday \<lparr>year = 2020, month = 10, day = 11\<rparr> = 6"
  "weekday \<lparr>year = 2020, month = 10, day = 12\<rparr> = 0"
  by code_simp+

lemma str_int_weekdays: "str_int 6 = ''6''" "str_int 0 = ''0''"
  by code_simp+

lemma py_int_cells:
  "py_int ''5'' = Some 5" "py_int ''12'' = Some 12" "py_int ''1'' = Some 1"
  "py_int ''2'' = Some 2" "py_int ''-5'' = Some (- 5)"
  by code_simp+

lemma transform_oct:
  "transform parse_dmy [[''12 October 2020'', ''1'', ''2''], [''11 October 2020'', ''5'', ''12'']]
     = Inr [[PStr ''2020-10-11'', PInt 5, PInt 12], [PStr ''2020-10-12'', PInt 1, PInt 2]]"
  by (simp add: transform_def transform_row_def parse_dmy_oct isoformat_oct py_int_cells
      py_sorted_def)

lemma heat_transform_oct:
  "heat_transform parse_dmy
     [[''11 October 2020'', ''5'', ''12''], [''12 October 2020'', ''1'', ''2'']]
     = Inr [[PStr ''0'', PStr ''2020-10-12'', PInt 1, PInt 2],
            [PStr ''6'', PStr ''2020-10-11'', PInt 5, PInt 12]]"
  by (simp add: heat_transform_def heat_transform_row_def parse_dmy_oct isoformat_oct
      py_int_cells weekday_oct str_int_weekdays py_sorted_def)

section \<open>The order of the output of transform\<close>

text \<open>
  Claim C5. When the dates of the input rows are calendar dates (as every date object is) and
  pairwise distinct, the date texts of the rows that \<^verbatim>\<open>transform\<close> returns increase
  strictly from row to row, and the order is the order of the calendar: of two input rows,
  the record of the earlier date stands before the record of the later one, wherever the rows
  stood in the input.
\<close>

theorem transform_sorted_by_date:
  assumes ok: "transform parse rows = Inr out"
    and valid: "\<forall>row \<in> set rows. valid_date (the (parse (hd row)))"
    and dist: "distinct (map (\<lambda>row. parse (hd row)) rows)"
  shows "sorted_wrt (<) (map (str_of \<circ> hd) out) \<and>
         (\<forall>r1 \<in> set rows. \<forall>r2 \<in> set rows.
            date_key (the (parse (hd r1))) < date_key (the (parse (hd r2))) \<longrightarrow>
            (\<exists>i j. i < j \<and> j < length out \<and>
               out ! i = record_of parse r1 \<and> out ! j = record_of parse r2))"
proof (intro conjI ballI impI)
  note acc = transform_sorted(1) [OF ok] and perm = transform_sorted(2) [OF ok]
    and srt = transform_sorted(3) [OF ok]
  have some: "parse (hd row) \<noteq> None" if "row \<in> set rows" for row
    using acc that by (auto simp: list_all_iff accepted_def)
  have "sorted (map (str_of \<circ> hd) out)"
    using sorted_fst_key [OF srt] by (simp add: fst_row_key)
  moreover have "distinct (map (str_of \<circ> hd) out)"
  proof -
    have "mset (map (str_of \<circ> hd) out) = image_mset (str_of \<circ> hd) (mset out)" by simp
    also have "\<dots> = mset (map (\<lambda>row. isoformat (the (parse (hd row)))) rows)"
      unfolding perm by (simp add: multiset.map_comp comp_def record_of_date)
    finally have m: "mset (map (str_of \<circ> hd) out) =
        mset (map (\<lambda>row. isoformat (the (parse (hd row)))) rows)" .
    have "inj_on (\<lambda>row. isoformat (the (parse (hd row)))) (set rows)"
    proof (rule inj_onI)
      fix a b assume ab: "a \<in> set rows" "b \<in> set rows"
        "isoformat (the (parse (hd a))) = isoformat (the (parse (hd b)))"
      then have "the (parse (hd a)) = the (parse (hd b))" using valid isoformat_inj by blast
      then have "parse (hd a) = parse (hd b)" using some ab(1,2) by (metis option.expand)
      moreover have "inj_on (\<lambda>row. parse (hd row)) (set rows)"
        using dist by (simp add: distinct_map)
      ultimately show "a = b" using ab(1,2) by (auto dest: inj_onD)
    qed
    moreover have "distinct rows" using dist by (simp add: distinct_map)
    ultimately have "distinct (map (\<lambda>row. isoformat (the (parse (hd row)))) rows)"
      by (simp add: distinct_map)
    then show ?thesis using m by (metis mset_eq_imp_distinct_iff)
  qed
  ultimately show "sorted_wrt (<) (map (str_of \<circ> hd) out)"
    by (simp add: strict_sorted_iff)
next
  fix r1 r2
  assume r: "r1 \<in> set rows" "r2 \<in> set rows"
    and lt: "date_key (the (parse (hd r1))) < date_key (the (parse (hd r2)))"
  note perm = transform_sorted(2) [OF ok] and srt = transform_sorted(3) [OF ok]
  have "set out = record_of parse ` set rows"
    using perm by (metis set_map set_mset_mset)
  then have mem: "record_of parse r1 \<in> set out" "record_of parse r2 \<in> set out"
    using r by auto
  have "isoformat (the (parse (hd r1))) < isoformat (the (parse (hd r2)))"
    using lt valid r by (simp add: isoformat_less)
  then have "row_key (record_of parse r1) < row_key (record_of parse r2)"
    by (simp add: row_key_record_of)
  then show "\<exists>i j. i < j \<and> j < length out \<and>
               out ! i = record_of parse r1 \<and> out ! j = record_of parse r2"
    using occurs_before [OF srt mem] by blast
qed


theorem transform_sorted_by_date_witness:
  "transform parse_dmy [[''12 October 2020'', ''1'', ''2''], [''11 October 2020'', ''5'', ''12'']]
     = Inr [[PStr ''2020-10-11'', PInt 5, PInt 12], [PStr ''2020-10-12'', PInt 1, PInt 2]] \<and>
   list_all (\<lambda>row. valid_date (the (parse_dmy (hd row))))
     [[''12 October 2020'', ''1'', ''2''], [''11 October 2020'', ''5'', ''12'']] \<and>
   distinct (map (\<lambda>row. parse_dmy (hd row))
     [[''12 October 2020'', ''1'', ''2''], [''11 October 2020'', ''5'', ''12'']]) \<and>
   date_key (the (parse_dmy (hd [''11 October 2020'', ''5'', ''12''])))
     < date_key (the (parse_dmy (hd [''12 October 2020'', ''1'', ''2'']))) \<and>
   sorted_wrt (<) (map (str_of \<circ> hd)
     [[PStr ''2020-10-11'', PInt 5, PInt 12], [PStr ''2020-10-12'', PInt 1, PInt 2]]) \<and>
   (\<exists>i j. i < j \<and>
      j < length [[PStr ''2020-10-11'', PInt 5, PInt 12], [PStr ''2020-10-12'', PInt 1, PInt 2]] \<and>
      [[PStr ''2020-10-11'', PInt 5, PInt 12], [PStr ''2020-10-12'', PInt 1, PInt 2]] ! i
        = record_of parse_dmy [''11 October 2020'', ''5'', ''12''] \<and>
      [[PStr ''2020-10-11'', PInt 5, PInt 12], [PStr ''2020-10-12'', PInt 1, PInt 2]] ! j
        = record_of parse_dmy [''12 October 2020'', ''1'', ''2''])"
proof -
  let ?rows = "[[''12 October 2020'', ''1'', ''2''], [''11 October 2020'', ''5'', ''12'']]"
  let ?out = "[[PStr ''2020-10-11'', PInt 5, PInt 12], [PStr ''2020-10-12'', PInt 1, PInt 2]]"
  have h1: "transform parse_dmy ?rows = Inr ?out" by (rule transform_oct)
  have h2: "list_all (\<lambda>row. valid_date (the (parse_dmy (hd row)))) ?rows"
    by (simp add: parse_dmy_oct valid_date_oct)
  have h3: "distinct (map (\<lambda>row. parse_dmy (hd row)) ?rows)"
    by (simp add: parse_dmy_oct)
  have h4: "date_key (the (parse_dmy (hd [''11 October 2020'', ''5'', ''12''])))
     < date_key (the (parse_dmy (hd [''12 October 2020'', ''1'', ''2''])))"
    by (simp add: parse_dmy_oct date_key_def)
  have h2': "\<forall>row \<in> set ?rows. valid_date (the (parse_dmy (hd row)))"
    using h2 by (simp only: list_all_iff)
  note t = transform_sorted_by_date [OF h1 h2' h3]
  have a: "sorted_wrt (<) (map (str_of \<circ> hd) ?out)" using t by (rule conjunct1)
  have "[''11 October 2020'', ''5'', ''12''] \<in> set ?rows"
    "[''12 October 2020'', ''1'', ''2''] \<in> set ?rows" by simp_all
  then have b: "\<exists>i j. i < j \<and> j < length ?out \<and>
      ?out ! i = record_of parse_dmy [''11 October 2020'', ''5'', ''12''] \<and>
      ?out ! j = record_of parse_dmy [''12 October 2020'', ''1'', ''2'']"
    using t h4 by blast
  show ?thesis using h1 h2 h3 h4 a b by (intro conjI)
qed

section \<open>The order of the output of heat\_transform\<close>

lemma weekday_range: "0 \<le> weekday d \<and> weekday d \<le> 6"
  by (simp add: weekday_def)

lemma str_int_digit: "0 \<le> w \<Longrightarrow> w < 10 \<Longrightarrow> str_int w = [digit_char (nat w)]"
  by (simp add: str_int_def dec_1)

lemma str_int_less:
  assumes "0 \<le> a" "a < 10" "0 \<le> b" "b < 10"
  shows "str_int a < str_int b \<longleftrightarrow> a < b"
  using assms by (auto simp: str_int_digit digit_char_less)

lemma str_int_weekday_less:
  "str_int (weekday d1) < str_int (weekday d2) \<longleftrightarrow> weekday d1 < weekday d2"
  using weekday_range [of d1] weekday_range [of d2] by (intro str_int_less) simp_all

lemma heat_key_record_of:
  "heat_key (heat_record_of parse row) =
     (str_int (weekday (the (parse (hd row)))), isoformat (the (parse (hd row))),
      map (\<lambda>x. the (py_int x)) (tl row))"
  by (simp add: heat_record_of_def record_of_def heat_key_def comp_def)

lemma heat_record_of_date:
  "str_of (heat_record_of parse row ! Suc 0) = isoformat (the (parse (hd row)))"
  by (simp add: heat_record_of_def record_of_def)

lemma heat_record_of_weekday:
  "heat_record_of parse row ! 0 = PStr (str_int (weekday (the (parse (hd row)))))"
  by (simp add: heat_record_of_def)

text \<open>
  Claim C8. The rows that \<^verbatim>\<open>heat_transform\<close> returns ascend in the order of the whole
  row, weekday first: read as tuples (weekday text, date text, numbers) they are sorted, and no
  row is smaller, by the comparison of the language, than a row before it. So of two input
  rows the one with the smaller weekday comes first, and when its date is the later one the
  date column of the output is not in calendar order.
\<close>

theorem heat_transform_sorted_by_weekday:
  assumes ok: "heat_transform parse rows = Inr out"
  shows "sorted (map heat_key out) \<and>
         sorted_wrt (\<lambda>a b. list_lt b a = Inr False) out \<and>
         (\<forall>r1 \<in> set rows. \<forall>r2 \<in> set rows.
            weekday (the (parse (hd r1))) < weekday (the (parse (hd r2))) \<longrightarrow>
            (\<exists>i j. i < j \<and> j < length out \<and>
               out ! i = heat_record_of parse r1 \<and> out ! j = heat_record_of parse r2) \<and>
            (valid_date (the (parse (hd r1))) \<and> valid_date (the (parse (hd r2))) \<and>
             date_key (the (parse (hd r2))) < date_key (the (parse (hd r1))) \<longrightarrow>
               \<not> sorted (map (\<lambda>r. str_of (r ! 1)) out)))"
proof (intro conjI ballI impI)
  note perm = heat_transform_sorted(2) [OF ok] and srt = heat_transform_sorted(3) [OF ok]
  have out: "set out = heat_record_of parse ` set rows"
    using perm by (metis set_map set_mset_mset)
  show "sorted (map heat_key out)" by (rule srt)
  have "sorted_wrt (\<lambda>a b. heat_key a \<le> heat_key b) out" using srt by (simp add: sorted_map)
  then show "sorted_wrt (\<lambda>a b. list_lt b a = Inr False) out"
  proof (rule sorted_wrt_mono_rel [rotated])
    fix a b assume ab: "a \<in> set out" "b \<in> set out" "heat_key a \<le> heat_key b"
    obtain a0 s vs where a: "a = PStr a0 # PStr s # map PInt vs"
      using ab(1) out heat_record_of_shape by (metis imageE)
    obtain b0 t ws where b: "b = PStr b0 # PStr t # map PInt ws"
      using ab(2) out heat_record_of_shape by (metis imageE)
    have "list_lt b a = Inr (heat_key b < heat_key a)"
      unfolding a b heat_key_record by (rule list_lt_heat_record)
    then show "list_lt b a = Inr False" using ab(3) by (simp add: not_less)
  qed
  fix r1 r2
  assume r: "r1 \<in> set rows" "r2 \<in> set rows"
    and wd: "weekday (the (parse (hd r1))) < weekday (the (parse (hd r2)))"
  have mem: "heat_record_of parse r1 \<in> set out" "heat_record_of parse r2 \<in> set out"
    using r out by auto
  have "heat_key (heat_record_of parse r1) < heat_key (heat_record_of parse r2)"
    using wd by (simp add: heat_key_record_of str_int_weekday_less)
  from occurs_before [OF srt mem this]
  show before: "\<exists>i j. i < j \<and> j < length out \<and>
               out ! i = heat_record_of parse r1 \<and> out ! j = heat_record_of parse r2"
    by blast
  assume v: "valid_date (the (parse (hd r1))) \<and> valid_date (the (parse (hd r2))) \<and>
             date_key (the (parse (hd r2))) < date_key (the (parse (hd r1)))"
  then have lt: "isoformat (the (parse (hd r2))) < isoformat (the (parse (hd r1)))"
    by (simp add: isoformat_less)
  obtain i j where ij: "i < j" "j < length out" "out ! i = heat_record_of parse r1"
    "out ! j = heat_record_of parse r2" using before by blast
  show "\<not> sorted (map (\<lambda>r. str_of (r ! 1)) out)"
  proof
    assume "sorted (map (\<lambda>r. str_of (r ! 1)) out)"
    then have "map (\<lambda>r. str_of (r ! 1)) out ! i \<le> map (\<lambda>r. str_of (r ! 1)) out ! j"
      using ij(1,2) by (simp add: sorted_iff_nth_mono)
    then have "isoformat (the (parse (hd r1))) \<le> isoformat (the (parse (hd r2)))"
      using ij by (simp add: heat_record_of_date)
    then show False using lt by simp
  qed
qed


theorem heat_transform_sorted_by_weekday_witness:
  "heat_transform parse_dmy
     [[''11 October 2020'', ''5'', ''12''], [''12 October 2020'', ''1'', ''2'']]
     = Inr [[PStr ''0'', PStr ''2020-10-12'', PInt 1, PInt 2],
            [PStr ''6'', PStr ''2020-10-11'', PInt 5, PInt 12]] \<and>
   weekday (the (parse_dmy (hd [''12 October 2020'', ''1'', ''2''])))
     < weekday (the (parse_dmy (hd [''11 October 2020'', ''5'', ''12'']))) \<and>
   valid_date (the (parse_dmy (hd [''12 October 2020'', ''1'', ''2'']))) \<and>
   valid_date (the (parse_dmy (hd [''11 October 2020'', ''5'', ''12'']))) \<and>
   date_key (the (parse_dmy (hd [''11 October 2020'', ''5'', ''12''])))
     < date_key (the (parse_dmy (hd [''12 October 2020'', ''1'', ''2'']))) \<and>
   sorted (map heat_key [[PStr ''0'', PStr ''2020-10-12'', PInt 1, PInt 2],
                         [PStr ''6'', PStr ''2020-10-11'', PInt 5, PInt 12]]) \<and>
   (\<exists>i j. i < j \<and>
      [[PStr ''0'', PStr ''2020-10-12'', PInt 1, PInt 2],
       [PStr ''6'', PStr ''2020-10-11'', PInt 5, PInt 12]] ! i
        = heat_record_of parse_dmy [''12 October 2020'', ''1'', ''2''] \<and>
      [[PStr ''0'', PStr ''2020-10-12'', PInt 1, PInt 2],
       [PStr ''6'', PStr ''2020-10-11'', PInt 5, PInt 12]] ! j
        = heat_record_of parse_dmy [''11 October 2020'', ''5'', ''12'']) \<and>
   \<not> sorted (map (\<lambda>r. str_of (r ! 1))
      [[PStr ''0'', PStr ''2020-10-12'', PInt 1, PInt 2],
       [PStr ''6'', PStr ''2020-10-11'', PInt 5, PInt 12]])"
proof -
  let ?r1 = "[''12 October 2020'', ''1'', ''2'']"
  let ?r2 = "[''11 October 2020'', ''5'', ''12'']"
  let ?out = "[[PStr ''0'', PStr ''2020-10-12'', PInt 1, PInt 2],
               [PStr ''6'', PStr ''2020-10-11'', PInt 5, PInt 12]]"
  have h1: "heat_transform parse_dmy [?r2, ?r1] = Inr ?out" by (rule heat_transform_oct)
  have h2: "weekday (the (parse_dmy (hd ?r1))) < weekday (the (parse_dmy (hd ?r2)))"
    by (simp add: parse_dmy_oct weekday_oct)
  have h3: "valid_date (the (parse_dmy (hd ?r1)))" "valid_date (the (parse_dmy (hd ?r2)))"
    by (simp_all add: parse_dmy_oct valid_date_oct)
  have h4: "date_key (the (parse_dmy (hd ?r2))) < date_key (the (parse_dmy (hd ?r1)))"
    by (simp add: parse_dmy_oct date_key_def)
  note t = heat_transform_sorted_by_weekday [OF h1]
  have a: "sorted (map heat_key ?out)" using t by (rule conjunct1)
  have m: "?r1 \<in> set [?r2, ?r1]" "?r2 \<in> set [?r2, ?r1]" by simp_all
  have b: "\<exists>i j. i < j \<and> ?out ! i = heat_record_of parse_dmy ?r1 \<and>
      ?out ! j = heat_record_of parse_dmy ?r2"
    using t m h2 by blast
  have c: "\<not> sorted (map (\<lambda>r. str_of (r ! 1)) ?out)"
    using t m h2 h3 h4 by blast
  show ?thesis using h1 h2 h3 h4 a b c by (intro conjI)
qed

section \<open>Reading the cells\<close>

lemma isdigit_iff: "isdigit c \<longleftrightarrow> 48 \<le> (of_char c :: nat) \<and> (of_char c :: nat) \<le> 57"
  by (simp add: isdigit_def less_eq_char_def)

lemma isdigit_not_space: "isdigit c \<Longrightarrow> \<not> int_space c"
  by (auto simp: isdigit_iff int_space_def)

lemma isdigit_not_mark:
  "isdigit c \<Longrightarrow> c \<noteq> CHR ''-'' \<and> c \<noteq> CHR ''+'' \<and> c \<noteq> CHR ''_''"
  by (auto simp: isdigit_iff)

lemma strip_space_digits:
  assumes "ds \<noteq> []" "list_all isdigit ds"
  shows "strip_space ds = ds"
proof -
  have "isdigit (hd ds)" "isdigit (last ds)"
    using assms by (simp_all add: list_all_iff)
  then have h: "\<not> int_space (hd ds)" "\<not> int_space (last ds)"
    by (simp_all add: isdigit_not_space)
  have "dropWhile int_space ds = ds" using h(1) by (simp add: dropWhile_eq_self_iff)
  moreover have "dropWhile int_space (rev ds) = rev ds"
    using h(2) assms(1) by (simp add: dropWhile_eq_self_iff hd_rev)
  ultimately show ?thesis by (simp add: strip_space_def)
qed

lemma digit_groups_digits: "ds \<noteq> [] \<Longrightarrow> list_all isdigit ds \<Longrightarrow> digit_groups ds"
proof (induction ds rule: digit_groups.induct)
  case 1
  then show ?case by simp
next
  case (2 c)
  then show ?case by simp
next
  case (3 c u cs)
  then have "isdigit u" by simp
  then have "u \<noteq> CHR ''_''" using isdigit_not_mark by blast
  then show ?case using 3 by simp
qed

lemma filter_digits: "list_all isdigit ds \<Longrightarrow> filter isdigit ds = ds"
  by (simp add: list_all_iff)

lemma py_int_digits:
  assumes "ds \<noteq> []" "list_all isdigit ds"
  shows "py_int ds = Some (int (digits_val ds))"
proof -
  obtain c cs where ds: "ds = c # cs" using assms(1) by (cases ds) auto
  then have "isdigit c" using assms(2) by simp
  then have c: "c \<noteq> CHR ''-''" "c \<noteq> CHR ''+''" using isdigit_not_mark by blast+
  have "unsigned_int ds = Some (int (digits_val ds))"
    using assms by (simp add: unsigned_int_def digit_groups_digits filter_digits)
  then show ?thesis
    using c ds strip_space_digits [OF assms] by (simp add: py_int_def)
qed

lemma digit_val_digit_char: "k < 10 \<Longrightarrow> digit_val (digit_char k) = k"
  by (simp add: digit_val_def of_char_digit_char)

lemma digits_val_snoc: "digits_val (ds @ [c]) = 10 * digits_val ds + digit_val c"
  by (simp add: digits_val_def)

lemma digits_val_dec: "digits_val (dec n) = n"
proof (induction n rule: dec.induct)
  case (1 n)
  show ?case
  proof (cases "n < 10")
    case True
    then show ?thesis by (simp add: dec_1 digits_val_def digit_val_digit_char)
  next
    case False
    then have "dec n = dec (n div 10) @ [digit_char (n mod 10)]"
      by (subst dec.simps) simp
    then show ?thesis using 1 False by (simp add: digits_val_snoc digit_val_digit_char)
  qed
qed






text \<open>
  Claim C4. When \<^verbatim>\<open>transform\<close> returns, no input row is empty, the date parser accepts
  the first cell of every row and int() every other cell, and the output holds, row for row
  (up to the order), the date of the first cell rendered as text followed by the integers of
  the other cells. The rendering of a calendar date is four digits of the year, two of the
  month and two of the day, joined by hyphens; a cell of decimal digits is read as the number
  it writes in base 10 (so the digits of \<open>n\<close> are read back as \<open>n\<close>). The row of the dashboard's
  11 October 2020 with cells 5 and 12 comes out as 2020-10-11, 5, 12.
\<close>

theorem transform_parses_rows:
  "(transform parse rows = Inr out \<longrightarrow>
      (\<forall>row \<in> set rows. row \<noteq> [] \<and> parse (hd row) \<noteq> None \<and> (\<forall>x \<in> set (tl row). py_int x \<noteq> None)) \<and>
      mset out =
        mset (map (\<lambda>row. PStr (isoformat (the (parse (hd row)))) #
                          map (\<lambda>x. PInt (the (py_int x))) (tl row)) rows)) \<and>
   (valid_date d \<longrightarrow>
      isoformat d =
        [digit_char (year d div 1000), digit_char (year d div 100 mod 10),
         digit_char (year d div 10 mod 10), digit_char (year d mod 10), CHR ''-'',
         digit_char (month d div 10), digit_char (month d mod 10), CHR ''-'',
         digit_char (day d div 10), digit_char (day d mod 10)]) \<and>
   (ds \<noteq> [] \<and> list_all isdigit ds \<longrightarrow> py_int ds = Some (int (digits_val ds))) \<and>
   digits_val (dec n) = n \<and>
   transform parse_dmy [[''11 October 2020'', ''5'', ''12'']]
     = Inr [[PStr ''2020-10-11'', PInt 5, PInt 12]]"
proof (intro conjI impI)
  assume ok: "transform parse rows = Inr out"
  show "\<forall>row \<in> set rows. row \<noteq> [] \<and> parse (hd row) \<noteq> None \<and> (\<forall>x \<in> set (tl row). py_int x \<noteq> None)"
    using transform_sorted(1) [OF ok] by (auto simp: list_all_iff accepted_def)
  have "record_of parse = (\<lambda>row. PStr (isoformat (the (parse (hd row)))) #
                          map (\<lambda>x. PInt (the (py_int x))) (tl row))"
    by (rule ext) (simp add: record_of_def)
  then show "mset out =
        mset (map (\<lambda>row. PStr (isoformat (the (parse (hd row)))) #
                          map (\<lambda>x. PInt (the (py_int x))) (tl row)) rows)"
    using transform_sorted(2) [OF ok] by simp
next
  assume "valid_date d"
  then show "isoformat d =
        [digit_char (year d div 1000), digit_char (year d div 100 mod 10),
         digit_char (year d div 10 mod 10), digit_char (year d mod 10), CHR ''-'',
         digit_char (month d div 10), digit_char (month d mod 10), CHR ''-'',
         digit_char (day d div 10), digit_char (day d mod 10)]"
    by (rule isoformat_digits)
next
  assume "ds \<noteq> [] \<and> list_all isdigit ds"
  then show "py_int ds = Some (int (digits_val ds))" by (simp add: py_int_digits)
next
  show "digits_val (dec n) = n" by (rule digits_val_dec)
next
  show "transform parse_dmy [[''11 October 2020'', ''5'', ''12'']]
     = Inr [[PStr ''2020-10-11'', PInt 5, PInt 12]]"
    by (simp add: transform_def transform_row_def parse_dmy_oct isoformat_oct py_int_cells
        py_sorted_def)
qed

theorem transform_parses_rows_witness:
  "transform parse_dmy [[''12 October 2020'', ''1'', ''2''], [''11 October 2020'', ''5'', ''12'']]
     = Inr [[PStr ''2020-10-11'', PInt 5, PInt 12], [PStr ''2020-10-12'', PInt 1, PInt 2]] \<and>
   mset [[PStr ''2020-10-11'', PInt 5, PInt 12], [PStr ''2020-10-12'', PInt 1, PInt 2]] =
     mset (map (\<lambda>row. PStr (isoformat (the (parse_dmy (hd row)))) #
                       map (\<lambda>x. PInt (the (py_int x))) (tl row))
            [[''12 October 2020'', ''1'', ''2''], [''11 October 2020'', ''5'', ''12'']]) \<and>
   valid_date \<lparr>year = 2020, month = 10, day = 11\<rparr> \<and>
   isoformat \<lparr>year = 2020, month = 10, day = 11\<rparr> =
     [digit_char 2, digit_char 0, digit_char 2, digit_char 0, CHR ''-'',
      digit_char 1, digit_char 0, CHR ''-'', digit_char 1, digit_char 1] \<and>
   ''12'' \<noteq> [] \<and> list_all isdigit ''12'' \<and> py_int ''12'' = Some (int (digits_val ''12''))"
proof -
  have h1: "transform parse_dmy
      [[''12 October 2020'', ''1'', ''2''], [''11 October 2020'', ''5'', ''12'']]
     = Inr [[PStr ''2020-10-11'', PInt 5, PInt 12], [PStr ''2020-10-12'', PInt 1, PInt 2]]"
    by (rule transform_oct)
  have h2: "valid_date \<lparr>year = 2020, month = 10, day = 11\<rparr>" by (rule valid_date_oct)
  have h3: "''12'' \<noteq> [] \<and> list_all isdigit ''12''" by (simp add: isdigit_def)
  show ?thesis
    using h1 h2 h3
      transform_parses_rows
        [of parse_dmy "[[''12 October 2020'', ''1'', ''2''], [''11 October 2020'', ''5'', ''12'']]"
            "[[PStr ''2020-10-11'', PInt 5, PInt 12], [PStr ''2020-10-12'', PInt 1, PInt 2]]"
            "\<lparr>year = 2020, month = 10, day = 11\<rparr>" "''12''"]
    by simp
qed

section \<open>When transform raises\<close>




section \<open>Where the program and its description part\<close>

subsection \<open>The weekday in front of a heat row\<close>

lemma py_int_digit_char: "k < 10 \<Longrightarrow> py_int [digit_char k] = Some (int k)"
proof -
  assume k: "k < 10"
  have "isdigit (digit_char k)" using k by (simp add: isdigit_iff of_char_digit_char)
  then have "py_int [digit_char k] = Some (int (digits_val [digit_char k]))"
    by (intro py_int_digits) simp_all
  then show ?thesis using k by (simp add: digits_val_def digit_val_digit_char)
qed

lemma heat_transform_weekday_text:
  assumes ok: "heat_transform parse rows = Inr out" and r: "r \<in> set out"
  shows "\<exists>row \<in> set rows. \<exists>d. parse (hd row) = Some d \<and>
           r ! 0 = PStr (str_int (weekday d)) \<and> r ! 1 = PStr (isoformat d) \<and>
           0 \<le> weekday d \<and> weekday d \<le> 6 \<and>
           str_int (weekday d) = [digit_char (nat (weekday d))] \<and>
           py_int (str_int (weekday d)) = Some (weekday d)"
proof -
  note acc = heat_transform_sorted(1) [OF ok] and perm = heat_transform_sorted(2) [OF ok]
  have "set out = heat_record_of parse ` set rows"
    using perm by (metis set_map set_mset_mset)
  then obtain row where row: "row \<in> set rows" "r = heat_record_of parse row"
    using r by auto
  then have "parse (hd row) \<noteq> None" using acc by (auto simp: list_all_iff accepted_def)
  then obtain d where d: "parse (hd row) = Some d" by auto
  note w = weekday_range [of d]
  have s: "str_int (weekday d) = [digit_char (nat (weekday d))]"
    using w by (simp add: str_int_digit)
  have "py_int (str_int (weekday d)) = Some (weekday d)"
  proof -
    have "nat (weekday d) < 10" using w by linarith
    then have "py_int [digit_char (nat (weekday d))] = Some (int (nat (weekday d)))"
      by (rule py_int_digit_char)
    then show ?thesis unfolding s using w by simp
  qed
  then have "parse (hd row) = Some d \<and>
           r ! 0 = PStr (str_int (weekday d)) \<and> r ! 1 = PStr (isoformat d) \<and>
           0 \<le> weekday d \<and> weekday d \<le> 6 \<and>
           str_int (weekday d) = [digit_char (nat (weekday d))] \<and>
           py_int (str_int (weekday d)) = Some (weekday d)"
    using d row(2) w s by (simp add: heat_record_of_def record_of_def)
  then show ?thesis using row(1) by blast
qed

lemma weekday_monday_first:
  "map (\<lambda>n. weekday \<lparr>year = 2020, month = 10, day = n\<rparr>) [12, 13, 14, 15, 16, 17, 18]
     = [0, 1, 2, 3, 4, 5, 6]"
  by code_simp

text \<open>
  Claim C2, at the input row of 11 October 2020 (a Sunday): the value in front of the output
  row is the weekday of the parsed date, 6 with Monday as 0, but it is the text
  \<^verbatim>\<open>6\<close> and not an integer.
\<close>

theorem heat_transform_prepends_text:
  "heat_transform parse_dmy [[''11 October 2020'', ''5'', ''12'']]
     = Inr [[PStr ''6'', PStr ''2020-10-11'', PInt 5, PInt 12]] \<and>
   \<not> is_int (PStr ''6'') \<and>
   weekday \<lparr>year = 2020, month = 10, day = 11\<rparr> = 6"
  by (simp add: heat_transform_def heat_transform_row_def parse_dmy_oct isoformat_oct
      py_int_cells weekday_oct str_int_weekdays py_sorted_def)

subsection \<open>The status of the response\<close>

text \<open>
  Claim C1, at a response with status 404: \<^verbatim>\<open>fetch\<close> does not look at the status and
  returns the tree parsed from the body of the error page, where the request of gov\_data.py
  raises. Only a request that does not complete makes \<^verbatim>\<open>fetch\<close> fail.
\<close>

theorem fetch_ignores_status:
  "fetch html5lib_parse (Response 404 ''<html><body>Not Found</body></html>'')
     = Inr (html5lib_parse ''<html><body>Not Found</body></html>'') \<and>
   gov_data_request (Response 404 ''<html><body>Not Found</body></html>'') = Inl RuntimeError \<and>
   fetch html5lib_parse NoResponse = Inl RequestException"
  by (simp add: fetch_def gov_data_request_def)


subsection \<open>The grid of the heat map\<close>

lemma fold_max_nonneg:
  fixes x :: "int list"
  assumes "x \<noteq> []" "\<forall>d \<in> set x. 0 \<le> d"
  shows "fold max x 0 = Max (set x)"
proof -
  have "fold max x 0 = Max (set (0 # x))" by (simp only: Max.set_eq_fold)
  also have "\<dots> = max 0 (Max (set x))" using assms(1) by simp
  also have "\<dots> = Max (set x)"
  proof -
    obtain d where "d \<in> set x" using assms(1) by (cases x) auto
    then have "0 \<le> Max (set x)" using assms(2) by (meson List.finite_set Max_ge order_trans)
    then show ?thesis by simp
  qed
  finally show ?thesis .
qed

lemma bincount_bins:
  assumes "x \<noteq> []" "\<forall>d \<in> set x. 0 \<le> d"
  shows "\<exists>bins. bincount x w = Inr bins \<and> length bins = nat (Max (set x)) + 1 \<and>
           (\<forall>k < length bins.
              bins ! k = sum_list (map snd (filter (\<lambda>p. fst p = int k) (zip x w))))"
proof -
  let ?bins = "map (\<lambda>k. sum_list (map snd (filter (\<lambda>p. fst p = int k) (zip x w))))
      [0 ..< Suc (nat (Max (set x)))]"
  have "\<not> (\<exists>d \<in> set x. d < 0)" using assms(2) by auto
  then have "bincount x w = Inr ?bins"
    using assms by (simp add: bincount_def fold_max_nonneg)
  moreover have "length ?bins = nat (Max (set x)) + 1" by simp
  moreover have "\<forall>k < length ?bins.
      ?bins ! k = sum_list (map snd (filter (\<lambda>p. fst p = int k) (zip x w)))"
  proof (intro allI impI)
    fix k assume "k < length ?bins"
    then have "k < Suc (nat (Max (set x)))" by simp
    then have "?bins ! k = (\<lambda>k. sum_list (map snd (filter (\<lambda>p. fst p = int k) (zip x w))))
        ([0 ..< Suc (nat (Max (set x)))] ! k)"
      by (intro nth_map) simp
    also have "[0 ..< Suc (nat (Max (set x)))] ! k = k"
      using \<open>k < Suc (nat (Max (set x)))\<close> by (metis add_0 nth_upt)
    finally show "?bins ! k = sum_list (map snd (filter (\<lambda>p. fst p = int k) (zip x w)))" .
  qed
  ultimately show ?thesis by blast
qed

text \<open>
  Claim C9, at the heat rows of a page that has no Sunday: the one row of Monday
  12 October 2020. The sums are right, but the grid has one column per weekday up to the
  largest one present, here one column and not seven, and the annotation of the seven day
  columns then raises \<^verbatim>\<open>IndexError\<close>. With a Sunday among the rows the grid has its
  seven columns.
\<close>

theorem create_heatmap_without_sunday:
  "heat_transform parse_dmy [[''12 October 2020'', ''1'', ''2'']]
     = Inr [[PStr ''0'', PStr ''2020-10-12'', PInt 1, PInt 2]] \<and>
   heat_sums [[PStr ''0'', PStr ''2020-10-12'', PInt 1, PInt 2]] = Inr [[2], [1]] \<and>
   create_heatmap [[PStr ''0'', PStr ''2020-10-12'', PInt 1, PInt 2]] = Inl IndexError \<and>
   create_heatmap [[PStr ''0'', PStr ''2020-10-12'', PInt 1, PInt 2],
                   [PStr ''6'', PStr ''2020-10-11'', PInt 5, PInt 12]]
     = Inr [[2, 0, 0, 0, 0, 0, 12], [1, 0, 0, 0, 0, 0, 5]]"
proof -
  have p: "py_int ''0'' = Some 0" "py_int ''6'' = Some 6" by code_simp+
  have u: "[0 ..< Suc 0] = [0]" "[0 ..< 7] = [0, 1, 2, 3, 4, 5, 6]" by code_simp+
  have a: "heat_transform parse_dmy [[''12 October 2020'', ''1'', ''2'']]
     = Inr [[PStr ''0'', PStr ''2020-10-12'', PInt 1, PInt 2]]"
    by (simp add: heat_transform_def heat_transform_row_def parse_dmy_oct isoformat_oct
        py_int_cells weekday_oct str_int_weekdays py_sorted_def)
  have b: "heat_sums [[PStr ''0'', PStr ''2020-10-12'', PInt 1, PInt 2]] = Inr [[2], [1]]"
    by (simp add: heat_sums_def column_def np_int_def p bincount_def u)
  have c: "create_heatmap [[PStr ''0'', PStr ''2020-10-12'', PInt 1, PInt 2]] = Inl IndexError"
    by (simp add: create_heatmap_def b)
  have d: "heat_sums [[PStr ''0'', PStr ''2020-10-12'', PInt 1, PInt 2],
                   [PStr ''6'', PStr ''2020-10-11'', PInt 5, PInt 12]]
     = Inr [[2, 0, 0, 0, 0, 0, 12], [1, 0, 0, 0, 0, 0, 5]]"
    by (simp add: heat_sums_def column_def np_int_def p bincount_def u)
  have e: "create_heatmap [[PStr ''0'', PStr ''2020-10-12'', PInt 1, PInt 2],
                   [PStr ''6'', PStr ''2020-10-11'', PInt 5, PInt 12]]
     = Inr [[2, 0, 0, 0, 0, 0, 12], [1, 0, 0, 0, 0, 0, 5]]"
    by (simp add: create_heatmap_def d)
  show ?thesis using a b c e by (intro conjI)
qed

end
